theory Spec2Isabelle
  imports Main "HOL-Library.Word" "HOL-Library.Multiset" "HOL-Library.Sublist"
begin

section \<open>Strings\<close>

text \<open>
  A JavaScript string is a sequence of 16-bit code units. Device names, command lines and
  the output of the discovery command are such strings. \<open>js\<close> embeds an ASCII literal.
\<close>

type_synonym jschar = "16 word"
type_synonym jsstring = "jschar list"

definition js :: "string \<Rightarrow> jsstring" where
  "js s = map (\<lambda>c. of_nat (of_char c)) s"

definition LF :: jschar where
  "LF = 10"

definition CR :: jschar where
  "CR = 13"

definition NUL :: jschar where
  "NUL = 0"

text \<open>
  The code units that \<^verbatim>\<open>String.prototype.trim\<close> strips: ECMAScript's WhiteSpace
  and LineTerminator productions.
\<close>

definition is_ws :: "jschar \<Rightarrow> bool" where
  "is_ws c = (c = 9 \<or> c = 10 \<or> c = 11 \<or> c = 12 \<or> c = 13 \<or> c = 32 \<or> c = 160
     \<or> c = 0x1680 \<or> (0x2000 \<le> c \<and> c \<le> 0x200A) \<or> c = 0x2028 \<or> c = 0x2029
     \<or> c = 0x202F \<or> c = 0x205F \<or> c = 0x3000 \<or> c = 0xFEFF)"

definition trim_start :: "jsstring \<Rightarrow> jsstring" where
  "trim_start s = dropWhile is_ws s"

definition trim_end :: "jsstring \<Rightarrow> jsstring" where
  "trim_end s = rev (dropWhile is_ws (rev s))"

definition trim :: "jsstring \<Rightarrow> jsstring" where
  "trim s = trim_end (trim_start s)"

text \<open>
  \<^verbatim>\<open>s.split('\n')\<close>: the pieces between line feeds. The empty string gives one
  empty piece, and a trailing line feed gives a trailing empty piece.
\<close>

fun split_lines :: "jsstring \<Rightarrow> jsstring list" where
  "split_lines [] = [[]]"
| "split_lines (c # cs) =
     (if c = LF then [] # split_lines cs
      else (case split_lines cs of
              [] \<Rightarrow> [[c]]
            | l # ls \<Rightarrow> (c # l) # ls))"

section \<open>Console output, effects and promises\<close>

text \<open>
  Each text the program prints is one constructor, named after the literal in the source;
  the parts interpolated into a template string are its arguments.
\<close>

datatype message =
    MFetching                     \<comment> \<open>Fetching available AVDs...\<close>
  | MErrorFetching                \<comment> \<open>Error fetching AVDs. Make sure Android SDK is installed ...\<close>
  | MErrorDetail jsstring         \<comment> \<open>Error: error.message\<close>
  | MNoAVDsCreateFirst            \<comment> \<open>No AVDs found. Please create AVDs using Android Studio first.\<close>
  | MAvailableHeader              \<comment> \<open>Available Android Virtual Devices:\<close>
  | MNumbered nat jsstring        \<comment> \<open>n. avd\<close>
  | MTotal nat                    \<comment> \<open>Total: n AVD(s)\<close>
  | MTitle                        \<comment> \<open>Android AVD Multi-Launcher\<close>
  | MRule                         \<comment> \<open>==============================\<close>
  | MSelectPrompt                 \<comment> \<open>Select AVDs to launch:\<close>
  | MUsage                        \<comment> \<open>Use up/down to navigate, Space to select/deselect, Enter to confirm\<close>
  | MMenuLine bool bool jsstring  \<comment> \<open>cursor here, checkbox checked, avd\<close>
  | MSelectedCount nat            \<comment> \<open>Selected: n AVD(s)\<close>
  | MControls                     \<comment> \<open>Controls: ...\<close>
  | MPleaseSelect                 \<comment> \<open>Please select at least one AVD.\<close>
  | MGoodbye                      \<comment> \<open>Goodbye!\<close>
  | MSelectedSummary nat          \<comment> \<open>Selected n AVD(s):\<close>
  | MSelectedItem jsstring        \<comment> \<open>a selected avd, ticked\<close>
  | MBlank                        \<comment> \<open>an empty line\<close>
  | MHowLaunch                    \<comment> \<open>How would you like to launch the AVDs?\<close>
  | MOption1                      \<comment> \<open>1. Launch all at once (faster)\<close>
  | MOption2                      \<comment> \<open>2. Launch with delay (more stable)\<close>
  | MOption3                      \<comment> \<open>3. Launch one by one (manual control)\<close>
  | MInvalidChoice                \<comment> \<open>Invalid choice. Using parallel launch.\<close>
  | MLaunching jsstring           \<comment> \<open>Launching AVD: avdName\<close>
  | MFailed jsstring jsstring     \<comment> \<open>Failed to launch avdName: error.message\<close>
  | MLaunched jsstring            \<comment> \<open>Successfully launched avdName\<close>
  | MStartParallel                \<comment> \<open>Starting all selected AVDs simultaneously...\<close>
  | MStartDelayed                 \<comment> \<open>Starting AVDs with 3-second delays...\<close>
  | MWaiting                      \<comment> \<open>Waiting 3 seconds before next launch...\<close>
  | MStartSequential              \<comment> \<open>Launching AVDs one by one (press Enter to launch each)...\<close>

datatype question =
    QSelectAVDs                   \<comment> \<open>Select AVDs to launch:\<close>
  | QLaunchMode                   \<comment> \<open>How would you like to launch the AVDs?\<close>
  | QLaunchChoice                 \<comment> \<open>Enter your choice (1-3):\<close>
  | QPressEnter jsstring          \<comment> \<open>Press Enter to launch: avd\<close>

text \<open>
  What the program reports for one launch: \<^verbatim>\<open>launchAVD\<close> returns no value, its
  outcome is the line it prints, "Successfully launched" or "Failed to launch".
\<close>

datatype launch_outcome = Success | Failure jsstring

text \<open>
  The effects of a run, in the order in which they happen. \<open>Exec\<close> is a call of
  \<^verbatim>\<open>exec\<close> that returned a child process; \<open>Settled\<close> is the first
  \<^verbatim>\<open>resolve()\<close> of the promise of \<^verbatim>\<open>launchAVD\<close> for the device named, and
  carries no value, as in the source; \<open>Sleep\<close> is an awaited \<^verbatim>\<open>setTimeout\<close>,
  \<open>SetTimeout\<close> one that is only scheduled; \<open>RlQuestion\<close> and \<open>InquirerPrompt\<close>
  are a question put to the user and answered; \<open>Pause\<close> and \<open>Resume\<close> are those
  calls on standard input.
\<close>

datatype event =
    Log message
  | LogError message
  | Clear
  | Exec jsstring
  | Settled jsstring
  | Sleep nat
  | SetTimeout nat
  | RlQuestion question
  | InquirerPrompt question
  | SetRawMode bool
  | Resume
  | Pause
  | SetEncoding
  | AddListener
  | RemoveListener
  | Exit int

text \<open>
  How an asynchronous function ends: its promise is fulfilled or rejected, the process
  exits inside it (\<^verbatim>\<open>process.exit\<close>), or it is still waiting when the input ends.
\<close>

datatype 'a promise = Fulfilled 'a | Rejected jsstring | Exited int | Pending

section \<open>Inventory Lister\<close>

text \<open>
  What \<^verbatim>\<open>exec('emulator -list-avds', callback)\<close> hands to its callback: the message of
  the error (none when the command exited with status 0) and the standard output.
\<close>

record discovery =
  d_error :: "jsstring option"
  d_stdout :: jsstring

text \<open>\<^verbatim>\<open>stdout.trim().split('\n').filter(avd => avd.trim() !== '')\<close>\<close>

definition avds_of_stdout :: "jsstring \<Rightarrow> jsstring list" where
  "avds_of_stdout stdout = filter (\<lambda>avd. trim avd \<noteq> []) (split_lines (trim stdout))"

definition getAVDList :: "discovery \<Rightarrow> event list \<times> jsstring list promise" where
  "getAVDList d =
     (case d_error d of
        Some msg \<Rightarrow>
          ([Log MFetching, LogError MErrorFetching, LogError (MErrorDetail msg)], Rejected msg)
      | None \<Rightarrow>
          (let avds = avds_of_stdout (d_stdout d) in
           if length avds = 0
           then ([Log MFetching, Log MNoAVDsCreateFirst], Rejected (js ''No AVDs found''))
           else ([Log MFetching], Fulfilled avds)))"



text \<open>
  Two outputs of the discovery command: the example of the specification,
  "Pixel_5\n\nPixel_7\n", and the same two names with the line ends of Windows,
  "Pixel_5\r\nPixel_7\r\n".
\<close>

definition pixel_output :: jsstring where
  "pixel_output = js ''Pixel_5'' @ [LF, LF] @ js ''Pixel_7'' @ [LF]"

definition pixel_output_crlf :: jsstring where
  "pixel_output_crlf = js ''Pixel_5'' @ [CR, LF] @ js ''Pixel_7'' @ [CR, LF]"

text \<open>
  The parsing rule in the words of the specification: split the output on line breaks,
  trim each line, drop the empty lines, keep the order.
\<close>

definition inventory_rule :: "jsstring \<Rightarrow> jsstring list" where
  "inventory_rule stdout = filter (\<lambda>l. l \<noteq> []) (map trim (split_lines stdout))"

section \<open>Selector\<close>

subsection \<open>The raw-keyboard checkbox menu\<close>

text \<open>
  The variables of \<^verbatim>\<open>selectAVDsBuiltIn\<close>: the array \<^verbatim>\<open>selected\<close>, the cursor
  \<^verbatim>\<open>currentIndex\<close>, whether standard input is in raw mode, and how many scheduled
  redisplays (\<^verbatim>\<open>setTimeout(() => displayMenu(), 1500)\<close>) have not fired yet.
\<close>

record ui_state =
  selected :: "bool list"
  currentIndex :: int
  rawMode :: bool
  timers :: nat

text \<open>\<^verbatim>\<open>selected[index]\<close> read as a condition: an index past the end is falsy.\<close>

definition checked :: "bool list \<Rightarrow> nat \<Rightarrow> bool" where
  "checked sel index = (index < length sel \<and> sel ! index)"

text \<open>
  \<^verbatim>\<open>selected[i] = !selected[i]\<close>. A negative \<open>i\<close> sets a property that is no
  element of the array; an \<open>i\<close> past the end extends the array, and the holes left
  read as false.
\<close>

definition toggle :: "bool list \<Rightarrow> int \<Rightarrow> bool list" where
  "toggle sel i =
     (if i < 0 then sel
      else if nat i < length sel then sel[nat i := \<not> sel ! nat i]
      else sel @ replicate (nat i - length sel) False @ [True])"

definition displayMenu :: "jsstring list \<Rightarrow> ui_state \<Rightarrow> event list" where
  "displayMenu avds st =
     [Clear, Log MTitle, Log MRule, Log MSelectPrompt, Log MUsage]
     @ map (\<lambda>(index, avd).
              Log (MMenuLine (int index = currentIndex st) (checked (selected st) index) avd))
           (enumerate 0 avds)
     @ [Log (MSelectedCount (length (filter (\<lambda>b. b) (selected st)))), Log MControls]"

datatype keyname = KUp | KDown | KSpace | KReturn | KQ | KC | KOther

record key =
  kname :: keyname
  kctrl :: bool

text \<open>\<^verbatim>\<open>this.avds.filter((_, index) => selected[index])\<close>\<close>

definition checked_avds :: "jsstring list \<Rightarrow> bool list \<Rightarrow> jsstring list" where
  "checked_avds avds sel =
     map snd (filter (\<lambda>(index, avd). checked sel index) (enumerate 0 avds))"

text \<open>
  One call of \<^verbatim>\<open>handleKeypress(chunk, key)\<close>: what it prints and does, the variables
  afterwards, and what has become of the promise of \<^verbatim>\<open>selectAVDsBuiltIn\<close>, which
  is fulfilled with the value stored in \<^verbatim>\<open>this.selectedAVDs\<close>.
\<close>

definition handleKeypress ::
  "jsstring list \<Rightarrow> ui_state \<Rightarrow> key option \<Rightarrow> event list \<times> ui_state \<times> jsstring list promise" where
  "handleKeypress avds st k =
     (case k of
        None \<Rightarrow> ([], st, Pending)
      | Some key \<Rightarrow>
          (case kname key of
             KUp \<Rightarrow>
               (let st' = st\<lparr>currentIndex :=
                              (if currentIndex st > 0 then currentIndex st - 1
                               else int (length avds) - 1)\<rparr>
                in (displayMenu avds st', st', Pending))
           | KDown \<Rightarrow>
               (let st' = st\<lparr>currentIndex :=
                              (if currentIndex st < int (length avds) - 1 then currentIndex st + 1
                               else 0)\<rparr>
                in (displayMenu avds st', st', Pending))
           | KSpace \<Rightarrow>
               (let st' = st\<lparr>selected := toggle (selected st) (currentIndex st)\<rparr>
                in (displayMenu avds st', st', Pending))
           | KReturn \<Rightarrow>
               (let selectedAVDs = checked_avds avds (selected st) in
                if length selectedAVDs = 0
                then ([Log MPleaseSelect, SetTimeout 1500], st\<lparr>timers := timers st + 1\<rparr>, Pending)
                else ([SetRawMode False, RemoveListener], st\<lparr>rawMode := False\<rparr>,
                      Fulfilled selectedAVDs))
           | KQ \<Rightarrow> ([Log MGoodbye, Exit 0], st, Exited 0)
           | KC \<Rightarrow>
               (if kctrl key then ([Log MGoodbye, Exit 0], st, Exited 0)
                else ([], st, Pending))
           | KOther \<Rightarrow> ([], st, Pending)))"

text \<open>
  The constructor of \<^verbatim>\<open>AVDLauncher\<close> creates a readline interface on standard input
  (\<^verbatim>\<open>this.rl\<close>). It is part of Node, not of the program. On a terminal it listens to
  the keypress events too, and its listener, registered first, runs before
  \<^verbatim>\<open>handleKeypress\<close>. On Ctrl-C, the interface having no \<^verbatim>\<open>SIGINT\<close> listener, it
  closes: it pauses standard input and leaves raw mode. That reaction is recorded here,
  since it changes the mode of the terminal on a key the menu handles. What else the
  listener does (echo, line editing, closing on Ctrl-D at an empty line, a key the menu
  does not handle) is not recorded.
\<close>

definition rl_keypress :: "ui_state \<Rightarrow> key option \<Rightarrow> event list \<times> ui_state" where
  "rl_keypress st k =
     (case k of
        None \<Rightarrow> ([], st)
      | Some key \<Rightarrow>
          (if kname key = KC \<and> kctrl key
           then ([Pause, SetRawMode False], st\<lparr>rawMode := False\<rparr>)
           else ([], st)))"

text \<open>
  What reaches the menu while it waits: a keypress event, delivered first to the listener
  of readline and then to \<^verbatim>\<open>handleKeypress\<close>, or a scheduled redisplay falling due.
\<close>

datatype input = Keypress "key option" | TimerFires

fun select_loop ::
  "jsstring list \<Rightarrow> ui_state \<Rightarrow> input list \<Rightarrow> event list \<times> ui_state \<times> jsstring list promise" where
  "select_loop avds st [] = ([], st, Pending)"
| "select_loop avds st (Keypress k # ins) =
     (case rl_keypress st k of
        (t0, st0) \<Rightarrow>
          (case handleKeypress avds st0 k of
             (t, st', Pending) \<Rightarrow>
               (case select_loop avds st' ins of (t', r) \<Rightarrow> (t0 @ t @ t', r))
           | (t, st', p) \<Rightarrow> (t0 @ t, st', p)))"
| "select_loop avds st (TimerFires # ins) =
     (if timers st > 0
      then (case select_loop avds (st\<lparr>timers := timers st - 1\<rparr>) ins of
              (t', r) \<Rightarrow> (displayMenu avds st @ t', r))
      else select_loop avds st ins)"

text \<open>
  \<^verbatim>\<open>selectAVDsBuiltIn\<close>. \<^verbatim>\<open>process.stdin.setRawMode\<close> exists only when standard
  input is a terminal (\<open>stdinIsTTY\<close>); otherwise the call throws inside the executor of
  the promise, after the menu has been printed, and the promise is rejected with that
  error. A redisplay still scheduled when the promise is fulfilled is not cleared by the
  source: it stays counted in \<open>timers\<close> of the final state and falls due after the
  selector has returned.
\<close>

definition selectAVDsBuiltIn ::
  "bool \<Rightarrow> jsstring list \<Rightarrow> input list \<Rightarrow> event list \<times> ui_state \<times> jsstring list promise" where
  "selectAVDsBuiltIn stdinIsTTY avds ins =
     (let st0 = \<lparr>selected = replicate (length avds) False, currentIndex = 0,
                 rawMode = False, timers = 0\<rparr>
      in if \<not> stdinIsTTY
         then (displayMenu avds st0, st0,
               Rejected (js ''process.stdin.setRawMode is not a function''))
         else
           (case select_loop avds (st0\<lparr>rawMode := True\<rparr>) ins of
              (t, r) \<Rightarrow>
                (displayMenu avds st0 @ [SetRawMode True, Resume, SetEncoding, AddListener] @ t,
                 r)))"

subsection \<open>The inquirer checkbox prompt\<close>

text \<open>The \<^verbatim>\<open>validate\<close> function given to the prompt: an error text, or \<^verbatim>\<open>true\<close>.\<close>

definition validate :: "jsstring list \<Rightarrow> message + bool" where
  "validate input = (if length input = 0 then Inl MPleaseSelect else Inr True)"

text \<open>
  The package \<^verbatim>\<open>inquirer\<close> is not part of the program. Its checkbox prompt is taken
  as documented: each time the user submits, the answer is the list of the values of the
  ticked choices, in the order of the choices; the prompt ends with that answer when
  \<open>validate\<close> returns \<^verbatim>\<open>true\<close>, and otherwise shows the text and goes on. A
  submission is given by the ticks, one per choice.
\<close>

fun inquirer_checkbox ::
  "'v list \<Rightarrow> ('v list \<Rightarrow> message + bool) \<Rightarrow> bool list list \<Rightarrow> 'v list promise" where
  "inquirer_checkbox choices val [] = Pending"
| "inquirer_checkbox choices val (ticks # rest) =
     (let input = map fst (filter snd (zip choices ticks)) in
      case val input of
        Inr True \<Rightarrow> Fulfilled input
      | _ \<Rightarrow> inquirer_checkbox choices val rest)"

definition selectAVDsInquirer ::
  "jsstring list \<Rightarrow> bool list list \<Rightarrow> event list \<times> jsstring list promise" where
  "selectAVDsInquirer avds submissions =
     (case inquirer_checkbox avds validate submissions of
        Fulfilled selectedAVDs \<Rightarrow>
          ([InquirerPrompt QSelectAVDs, Log (MSelectedSummary (length selectedAVDs))]
             @ map (\<lambda>avd. Log (MSelectedItem avd)) selectedAVDs @ [Log MBlank],
           Fulfilled selectedAVDs)
      | p \<Rightarrow> ([InquirerPrompt QSelectAVDs], p))"

section \<open>Launch Strategy Selector\<close>

datatype launch_mode = Parallel | Delayed | Sequential

text \<open>
  \<open>useInquirer\<close> is the flag of the source. \<open>picked\<close> is the entry the user picks in the
  list prompt of inquirer, \<open>answer\<close> the line typed at the question of readline; at most
  one of them is used.
\<close>

definition selectLaunchOptions ::
  "bool \<Rightarrow> jsstring list \<Rightarrow> launch_mode \<Rightarrow> jsstring \<Rightarrow> event list \<times> launch_mode promise" where
  "selectLaunchOptions useInquirer selectedAVDs picked answer =
     (if length selectedAVDs = 1 then ([], Fulfilled Parallel)
      else if useInquirer then ([InquirerPrompt QLaunchMode], Fulfilled picked)
      else
        (let asked = [Log MHowLaunch, Log MOption1, Log MOption2, Log MOption3,
                      RlQuestion QLaunchChoice]
         in if trim answer = js ''1'' then (asked, Fulfilled Parallel)
            else if trim answer = js ''2'' then (asked, Fulfilled Delayed)
            else if trim answer = js ''3'' then (asked, Fulfilled Sequential)
            else (asked @ [Log MInvalidChoice], Fulfilled Parallel)))"

section \<open>Process Spawner\<close>

datatype platform = Win32 | Darwin | Linux | OtherPlatform

definition DQ :: jschar where
  "DQ = 0x22"

definition SQ :: jschar where
  "SQ = 0x27"

definition getEmulatorCommand :: "platform \<Rightarrow> jsstring \<Rightarrow> jsstring" where
  "getEmulatorCommand plat avdName =
     (let baseCommand = js ''emulator -avd '' @ [DQ] @ avdName @ [DQ] in
      case plat of
        Win32 \<Rightarrow>
          js ''powershell -Command '' @ [DQ] @ js ''Start-Process cmd -ArgumentList ''
          @ [SQ] @ js ''/c'' @ [SQ] @ js '','' @ [SQ] @ baseCommand @ [SQ]
          @ js '' -WindowStyle Minimized -PassThru | Out-Null'' @ [DQ]
      | Darwin \<Rightarrow>
          js ''osascript -e '' @ [SQ] @ js ''tell app '' @ [DQ] @ js ''Terminal'' @ [DQ]
          @ js '' to do script '' @ [DQ] @ baseCommand @ [DQ] @ [SQ]
      | Linux \<Rightarrow>
          js ''gnome-terminal --title='' @ [DQ] @ js ''AVD: '' @ avdName @ [DQ]
          @ js '' -- bash -c '' @ [DQ] @ baseCommand @ js ''; exec bash'' @ [DQ]
          @ js '' || xterm -title '' @ [DQ] @ js ''AVD: '' @ avdName @ [DQ]
          @ js '' -e '' @ [DQ] @ baseCommand @ [DQ]
          @ js '' || konsole --title '' @ [DQ] @ js ''AVD: '' @ avdName @ [DQ]
          @ js '' -e '' @ [DQ] @ baseCommand @ [DQ]
      | OtherPlatform \<Rightarrow> baseCommand)"

text \<open>
  What comes of one \<^verbatim>\<open>exec(command, callback)\<close>. The call may throw instead of
  returning a child process: Node throws when the command holds a NUL, and when the spawn
  fails with an error other than those it reports through the \<^verbatim>\<open>'error'\<close> event
  (\<open>thrown\<close>). Otherwise Node calls the callback once, with an error or with none
  (\<open>cb_error\<close>); a child that could not be spawned emits \<^verbatim>\<open>'error'\<close> as well
  (\<open>child_error\<close>), after the callback, since \<^verbatim>\<open>exec\<close> registered its own listener
  first. \<open>latency\<close> is the time this takes, which decides the order in which spawns
  issued together come back.
\<close>

record exec_reply =
  thrown :: "jsstring option"
  cb_error :: "jsstring option"
  child_error :: "jsstring option"
  latency :: nat

text \<open>
  The message of the error Node throws for a command with a NUL. Node prints the value
  received the way \<^verbatim>\<open>util.inspect\<close> does; here it is the command itself.
\<close>

definition null_bytes_message :: "jsstring \<Rightarrow> jsstring" where
  "null_bytes_message command =
     js ''The argument '' @ [SQ] @ js ''command'' @ [SQ]
     @ js '' must be a string without null bytes. Received '' @ command"

definition exec_throws :: "jsstring \<Rightarrow> exec_reply \<Rightarrow> jsstring option" where
  "exec_throws command r =
     (if NUL \<in> set command then Some (null_bytes_message command) else thrown r)"

text \<open>
  The executor of the promise in \<^verbatim>\<open>launchAVD\<close>, which runs at the call: it prints,
  builds the command and calls \<^verbatim>\<open>exec\<close>. When \<^verbatim>\<open>exec\<close> throws, no child
  process exists and the executor ends there.
\<close>

definition launchAVD_executor :: "platform \<Rightarrow> jsstring \<Rightarrow> exec_reply \<Rightarrow> event list" where
  "launchAVD_executor plat avdName r =
     (case exec_throws (getEmulatorCommand plat avdName) r of
        Some err \<Rightarrow> [Log (MLaunching avdName)]
      | None \<Rightarrow> [Log (MLaunching avdName), Exec (getEmulatorCommand plat avdName)])"

text \<open>
  The callback of \<^verbatim>\<open>exec\<close> and the \<^verbatim>\<open>'error'\<close> listener. Both print and both call
  \<^verbatim>\<open>resolve()\<close>; the promise is settled by the first call and the second changes
  nothing.
\<close>

definition launchAVD_callbacks :: "jsstring \<Rightarrow> exec_reply \<Rightarrow> event list" where
  "launchAVD_callbacks avdName r =
     (case cb_error r of
        Some msg \<Rightarrow> [LogError (MFailed avdName msg), Settled avdName]
      | None \<Rightarrow> [Log (MLaunched avdName), Settled avdName])
     @ (case child_error r of
          Some msg \<Rightarrow> [LogError (MFailed avdName msg)]
        | None \<Rightarrow> [])"

text \<open>
  \<^verbatim>\<open>launchAVD\<close>. The executor has no \<^verbatim>\<open>try\<close>: an error thrown by \<^verbatim>\<open>exec\<close>
  rejects the promise. Otherwise the promise is resolved by one of the two callbacks.
\<close>

definition launchAVD :: "platform \<Rightarrow> jsstring \<Rightarrow> exec_reply \<Rightarrow> event list \<times> unit promise" where
  "launchAVD plat avdName r =
     (case exec_throws (getEmulatorCommand plat avdName) r of
        Some err \<Rightarrow> (launchAVD_executor plat avdName r, Rejected err)
      | None \<Rightarrow>
          (launchAVD_executor plat avdName r @ launchAVD_callbacks avdName r, Fulfilled ()))"

section \<open>Launch Scheduler\<close>

text \<open>
  In each strategy the \<open>i\<close>-th call of \<^verbatim>\<open>launchAVD\<close> gets the reply \<open>replies i\<close>.
  An awaited promise that is not fulfilled ends the function that awaits it: a rejection
  is thrown on, and nothing after the \<^verbatim>\<open>await\<close> runs.
\<close>

text \<open>\<^verbatim>\<open>Promise.all\<close>, for promises without a value.\<close>

fun promise_all :: "unit promise list \<Rightarrow> unit promise" where
  "promise_all [] = Fulfilled ()"
| "promise_all (p # ps) = (case p of Fulfilled _ \<Rightarrow> promise_all ps | _ \<Rightarrow> p)"

text \<open>
  \<^verbatim>\<open>launchAVDsParallel\<close>: \<^verbatim>\<open>map\<close> makes all the calls, each running its executor,
  before any callback runs. If one of the promises is rejected, which happens in its
  executor, \<^verbatim>\<open>Promise.all\<close> is rejected before any callback runs and the function
  ends there. Otherwise the callbacks run in the order of their latency.
\<close>

definition launchAVDsParallel ::
  "platform \<Rightarrow> jsstring list \<Rightarrow> (nat \<Rightarrow> exec_reply) \<Rightarrow> event list \<times> unit promise" where
  "launchAVDsParallel plat selectedAVDs replies =
     (let calls = enumerate 0 selectedAVDs;
          started = [Log MStartParallel]
                    @ concat (map (\<lambda>(i, avd). launchAVD_executor plat avd (replies i)) calls)
      in case promise_all (map (\<lambda>(i, avd). snd (launchAVD plat avd (replies i))) calls) of
           Fulfilled _ \<Rightarrow>
             (started
                @ concat (map (\<lambda>(i, avd). launchAVD_callbacks avd (replies i))
                              (sort_key (\<lambda>(i, avd). latency (replies i)) calls)),
              Fulfilled ())
         | p \<Rightarrow> (started, p))"

text \<open>The \<^verbatim>\<open>for\<close> loop of \<^verbatim>\<open>launchAVDsDelayed\<close>, from index \<open>i\<close> on.\<close>

function launchAVDsDelayed_from ::
  "platform \<Rightarrow> jsstring list \<Rightarrow> (nat \<Rightarrow> exec_reply) \<Rightarrow> nat \<Rightarrow> event list \<times> unit promise" where
  "launchAVDsDelayed_from plat selectedAVDs replies i =
     (if i < length selectedAVDs then
        (case launchAVD plat (selectedAVDs ! i) (replies i) of
           (t, Fulfilled _) \<Rightarrow>
             (let w = (if int i < int (length selectedAVDs) - 1
                       then [Log MWaiting, Sleep 3000] else [])
              in case launchAVDsDelayed_from plat selectedAVDs replies (i + 1) of
                   (t', p) \<Rightarrow> (t @ w @ t', p))
         | (t, p) \<Rightarrow> (t, p))
      else ([], Fulfilled ()))"
  by pat_completeness auto
termination
  by (relation "measure (\<lambda>(plat, selectedAVDs, replies, i). length selectedAVDs - i)") auto

declare launchAVDsDelayed_from.simps [simp del]

definition launchAVDsDelayed ::
  "platform \<Rightarrow> jsstring list \<Rightarrow> (nat \<Rightarrow> exec_reply) \<Rightarrow> event list \<times> unit promise" where
  "launchAVDsDelayed plat selectedAVDs replies =
     (case launchAVDsDelayed_from plat selectedAVDs replies 0 of
        (t, p) \<Rightarrow> (Log MStartDelayed # t, p))"

text \<open>
  The \<^verbatim>\<open>for ... of\<close> loop of \<^verbatim>\<open>launchAVDsSequential\<close> over the rest of the selection;
  \<open>i\<close> counts the calls made so far.
\<close>

fun launchAVDsSequential_from ::
  "bool \<Rightarrow> platform \<Rightarrow> (nat \<Rightarrow> exec_reply) \<Rightarrow> nat \<Rightarrow> jsstring list \<Rightarrow> event list \<times> unit promise" where
  "launchAVDsSequential_from useInquirer plat replies i [] = ([], Fulfilled ())"
| "launchAVDsSequential_from useInquirer plat replies i (avd # rest) =
     (let ask = (if useInquirer then InquirerPrompt (QPressEnter avd)
                 else RlQuestion (QPressEnter avd))
      in case launchAVD plat avd (replies i) of
           (t, Fulfilled _) \<Rightarrow>
             (case launchAVDsSequential_from useInquirer plat replies (i + 1) rest of
                (t', p) \<Rightarrow> (ask # t @ [Log MBlank] @ t', p))
         | (t, p) \<Rightarrow> (ask # t, p))"

definition launchAVDsSequential ::
  "bool \<Rightarrow> platform \<Rightarrow> jsstring list \<Rightarrow> (nat \<Rightarrow> exec_reply) \<Rightarrow> event list \<times> unit promise" where
  "launchAVDsSequential useInquirer plat selectedAVDs replies =
     (case launchAVDsSequential_from useInquirer plat replies 0 selectedAVDs of
        (t, p) \<Rightarrow> (Log MStartSequential # t, p))"

text \<open>The \<^verbatim>\<open>switch (launchMode)\<close> of \<^verbatim>\<open>run\<close>.\<close>

definition launch_by_mode ::
  "launch_mode \<Rightarrow> bool \<Rightarrow> platform \<Rightarrow> jsstring list \<Rightarrow> (nat \<Rightarrow> exec_reply)
     \<Rightarrow> event list \<times> unit promise" where
  "launch_by_mode launchMode useInquirer plat selectedAVDs replies =
     (case launchMode of
        Parallel \<Rightarrow> launchAVDsParallel plat selectedAVDs replies
      | Delayed \<Rightarrow> launchAVDsDelayed plat selectedAVDs replies
      | Sequential \<Rightarrow> launchAVDsSequential useInquirer plat selectedAVDs replies)"

section \<open>Reading a trace\<close>

text \<open>The commands spawned, the delays and the acknowledgments.\<close>

fun execs :: "event list \<Rightarrow> jsstring list" where
  "execs [] = []"
| "execs (Exec c # t) = c # execs t"
| "execs (e # t) = execs t"

fun sleeps :: "event list \<Rightarrow> nat list" where
  "sleeps [] = []"
| "sleeps (Sleep ms # t) = ms # sleeps t"
| "sleeps (e # t) = sleeps t"

fun acks :: "event list \<Rightarrow> jsstring list" where
  "acks [] = []"
| "acks (RlQuestion (QPressEnter avd) # t) = avd # acks t"
| "acks (InquirerPrompt (QPressEnter avd) # t) = avd # acks t"
| "acks (e # t) = acks t"

text \<open>
  The outcomes reported: the lines "Successfully launched avd" and "Failed to launch avd:
  message", in the order in which they are printed.
\<close>

definition report_of :: "event \<Rightarrow> (jsstring \<times> launch_outcome) option" where
  "report_of e =
     (case e of
        Log m \<Rightarrow> (case m of MLaunched avd \<Rightarrow> Some (avd, Success) | _ \<Rightarrow> None)
      | LogError m \<Rightarrow> (case m of MFailed avd msg \<Rightarrow> Some (avd, Failure msg) | _ \<Rightarrow> None)
      | _ \<Rightarrow> None)"

definition reports :: "event list \<Rightarrow> (jsstring \<times> launch_outcome) list" where
  "reports t = List.map_filter report_of t"

text \<open>
  No call of \<^verbatim>\<open>exec\<close> throws: for the selection \<open>sel\<close>, whose first call is the
  \<open>n\<close>-th of the run, every call returns a child process.
\<close>

definition spawns_issued ::
  "platform \<Rightarrow> (nat \<Rightarrow> exec_reply) \<Rightarrow> nat \<Rightarrow> jsstring list \<Rightarrow> bool" where
  "spawns_issued plat replies n sel =
     list_all (\<lambda>(i, avd). exec_throws (getEmulatorCommand plat avd) (replies i) = None)
              (enumerate n sel)"

section \<open>The timing contracts of the strategies\<close>

text \<open>
  The contracts are read off a trace by a monitor that follows its events and stops
  (\<open>None\<close>) at the first that breaks the contract. Events the contract does not speak
  about leave the phase as it is.
\<close>

datatype phase = Idle | Acked jsstring | InFlight jsstring | Done | Waited

fun follows :: "(phase \<Rightarrow> event \<Rightarrow> phase option) \<Rightarrow> phase \<Rightarrow> event list \<Rightarrow> phase option" where
  "follows step ph [] = Some ph"
| "follows step ph (e # t) =
     (case step ph e of None \<Rightarrow> None | Some ph' \<Rightarrow> follows step ph' t)"

text \<open>
  Delayed: a spawn is issued at the start or after a delay, never while another is in
  flight; the promise that settles is the one of the device in flight; a delay is 3000 ms
  and comes only after a settle.
\<close>

fun delayed_step :: "platform \<Rightarrow> phase \<Rightarrow> event \<Rightarrow> phase option" where
  "delayed_step plat ph (Exec c) =
     (if ph = Idle \<or> ph = Waited then Some (InFlight c) else None)"
| "delayed_step plat ph (Settled avd) =
     (if ph = InFlight (getEmulatorCommand plat avd) then Some Done else None)"
| "delayed_step plat ph (Sleep ms) =
     (if ph = Done \<and> ms = 3000 then Some Waited else None)"
| "delayed_step plat ph e = Some ph"

text \<open>
  Sequential: an acknowledgment is asked for at the start or after a settle; a spawn is
  issued only after the acknowledgment for that device; the promise that settles is the
  one of the device in flight.
\<close>

fun sequential_step :: "platform \<Rightarrow> phase \<Rightarrow> event \<Rightarrow> phase option" where
  "sequential_step plat ph (RlQuestion q) =
     (case q of
        QPressEnter avd \<Rightarrow> (if ph = Idle \<or> ph = Done then Some (Acked avd) else None)
      | _ \<Rightarrow> Some ph)"
| "sequential_step plat ph (InquirerPrompt q) =
     (case q of
        QPressEnter avd \<Rightarrow> (if ph = Idle \<or> ph = Done then Some (Acked avd) else None)
      | _ \<Rightarrow> Some ph)"
| "sequential_step plat ph (Exec c) =
     (case ph of
        Acked avd \<Rightarrow> (if c = getEmulatorCommand plat avd then Some (InFlight c) else None)
      | _ \<Rightarrow> None)"
| "sequential_step plat ph (Settled avd) =
     (if ph = InFlight (getEmulatorCommand plat avd) then Some Done else None)"
| "sequential_step plat ph e = Some ph"

section \<open>Sample inputs\<close>

text \<open>
  A key pressed without Ctrl, an inventory of two devices, and the variables of the menu
  at the moment its listener is installed.
\<close>

definition press :: "keyname \<Rightarrow> input" where
  "press n = Keypress (Some \<lparr>kname = n, kctrl = False\<rparr>)"

definition two_avds :: "jsstring list" where
  "two_avds = [js ''Pixel_5'', js ''Pixel_7'']"

definition menu_start :: "jsstring list \<Rightarrow> ui_state" where
  "menu_start avds = \<lparr>selected = replicate (length avds) False, currentIndex = 0,
                 rawMode = True, timers = 0\<rparr>"

definition three_avds :: "jsstring list" where
  "three_avds = [js ''Pixel_5'', js ''Pixel_7'', js ''Nexus_4'']"

text \<open>
  Replies to the spawns of one run. In \<open>first_fails\<close> the first command exits with an
  error and the others succeed. In \<open>all_succeed\<close> every command succeeds. In
  \<open>spawn_fails\<close> no child can be spawned: Node passes the error to the callback of
  \<^verbatim>\<open>exec\<close> and emits it on the child.
\<close>

definition first_fails :: "nat \<Rightarrow> exec_reply" where
  "first_fails i =
     (if i = 0
      then \<lparr>thrown = None, cb_error = Some (js ''Command failed''), child_error = None,
            latency = 2\<rparr>
      else \<lparr>thrown = None, cb_error = None, child_error = None, latency = 1\<rparr>)"

definition all_succeed :: "nat \<Rightarrow> exec_reply" where
  "all_succeed i = \<lparr>thrown = None, cb_error = None, child_error = None, latency = 1\<rparr>"

definition spawn_fails :: "nat \<Rightarrow> exec_reply" where
  "spawn_fails i =
     \<lparr>thrown = None, cb_error = Some (js ''spawn /bin/sh EAGAIN''),
      child_error = Some (js ''spawn /bin/sh EAGAIN''), latency = 1\<rparr>"

text \<open>A device name with a NUL in it, "A\u0000B", and a selection that starts with it.\<close>

definition nul_name :: jsstring where
  "nul_name = js ''A'' @ [NUL] @ js ''B''"

definition nul_first :: "jsstring list" where
  "nul_first = [nul_name, js ''Pixel_7'']"

section \<open>Properties of the Inventory Lister\<close>

subsection \<open>Trimming and splitting\<close>

lemma split_lines_not_Nil: "split_lines s \<noteq> []"
  by (induction s) (auto split: list.splits)

lemma trim_Nil: "trim [] = []"
  by (simp add: trim_def trim_start_def trim_end_def)

lemma trim_ws_Cons: "is_ws c \<Longrightarrow> trim (c # l) = trim l"
  by (simp add: trim_def trim_start_def)

lemma trim_end_ws_snoc: "is_ws c \<Longrightarrow> trim_end (l @ [c]) = trim_end l"
  by (simp add: trim_end_def)

lemma trim_end_Nil: "trim_end [] = []"
  by (simp add: trim_end_def)

lemma trim_ws_snoc: "is_ws c \<Longrightarrow> trim (l @ [c]) = trim l"
proof (cases "\<forall>x\<in>set l. is_ws x")
  case True
  assume "is_ws c"
  with True have "trim_start (l @ [c]) = []" "trim_start l = []"
    by (simp_all add: trim_start_def)
  then show ?thesis
    by (simp only: trim_def)
next
  case False
  assume "is_ws c"
  with False show ?thesis
    by (auto simp: trim_def trim_start_def dropWhile_append trim_end_ws_snoc)
qed

lemma rule_ws_Cons: "is_ws c \<Longrightarrow> inventory_rule (c # s) = inventory_rule s"
  using split_lines_not_Nil[of s]
  by (cases "split_lines s") (auto simp: inventory_rule_def trim_ws_Cons trim_Nil)

lemma rule_trim_start: "inventory_rule (trim_start s) = inventory_rule s"
  by (induction s) (auto simp: trim_start_def rule_ws_Cons)

lemma split_lines_snoc:
  "split_lines (s @ [c]) =
     (if c = LF then split_lines s @ [[]]
      else butlast (split_lines s) @ [last (split_lines s) @ [c]])"
proof (induction s)
  case Nil
  then show ?case by simp
next
  case (Cons a s)
  then show ?case using split_lines_not_Nil[of s] split_lines_not_Nil[of "s @ [c]"]
    by (cases "split_lines s") (auto split: list.splits)
qed

lemma rule_ws_snoc: 
  assumes "is_ws c" shows "inventory_rule (s @ [c]) = inventory_rule s"
proof (cases "c = LF")
  case True
  then show ?thesis by (simp add: inventory_rule_def split_lines_snoc trim_Nil)
next
  case False
  have "split_lines s = butlast (split_lines s) @ [last (split_lines s)]"
    using split_lines_not_Nil[of s] by simp
  then have "map trim (split_lines s) = map trim (butlast (split_lines s)) @ [trim (last (split_lines s))]"
    by (metis list.simps(8,9) map_append)
  with False assms show ?thesis
    by (simp add: inventory_rule_def split_lines_snoc trim_ws_snoc)
qed

lemma trim_end_snoc: "trim_end (s @ [c]) = (if is_ws c then trim_end s else s @ [c])"
  by (simp add: trim_end_def)

lemma rule_trim_end: "inventory_rule (trim_end s) = inventory_rule s"
  by (induction s rule: rev_induct) (auto simp: trim_end_snoc trim_end_Nil rule_ws_snoc)

lemma rule_trim: "inventory_rule (trim s) = inventory_rule s"
  by (simp add: trim_def rule_trim_end rule_trim_start)

lemma map_trim_avds: "map trim (avds_of_stdout out) = inventory_rule out"
proof -
  have "map trim (avds_of_stdout out) = inventory_rule (trim out)"
    by (simp add: avds_of_stdout_def inventory_rule_def filter_map comp_def)
  then show ?thesis by (simp add: rule_trim)
qed

lemma avds_of_stdout_nonblank: "l \<in> set (avds_of_stdout out) \<Longrightarrow> trim l \<noteq> []"
  by (simp add: avds_of_stdout_def)

lemma avds_of_stdout_pixel: "avds_of_stdout pixel_output = [js ''Pixel_5'', js ''Pixel_7'']"
  by (simp add: avds_of_stdout_def trim_def trim_start_def trim_end_def pixel_output_def
      js_def LF_def is_ws_def)

subsection \<open>The parsing rule\<close>

text \<open>
  What the parser computes, for every output: it trims the whole output, splits it at line
  feeds and drops the lines that are empty once trimmed. The lines it keeps are in order
  and as they are, not trimmed; trimming each of them gives the list that the rule of the
  specification describes. The example of the specification comes out as stated.
\<close>

lemma avds_of_stdout_rule:
  "avds_of_stdout out = filter (\<lambda>avd. trim avd \<noteq> []) (split_lines (trim out))
   \<and> map trim (avds_of_stdout out) = inventory_rule out
   \<and> avds_of_stdout pixel_output = [js ''Pixel_5'', js ''Pixel_7'']"
  by (simp add: map_trim_avds avds_of_stdout_pixel) (simp add: avds_of_stdout_def)

text \<open>
  Claim C6 says that each line is trimmed. The code trims the whole output and tests each
  line trimmed, but keeps the line untrimmed. With the line ends of Windows,
  "Pixel_5\r\nPixel_7\r\n", the first name keeps its carriage return, where the rule of
  the specification gives the bare names; and the carriage return goes into the command
  that launches this device on Windows.
\<close>

theorem avds_of_stdout_untrimmed:
  "avds_of_stdout pixel_output_crlf = [js ''Pixel_5'' @ [CR], js ''Pixel_7'']
   \<and> inventory_rule pixel_output_crlf = [js ''Pixel_5'', js ''Pixel_7'']
   \<and> avds_of_stdout pixel_output_crlf \<noteq> inventory_rule pixel_output_crlf
   \<and> CR \<in> set (getEmulatorCommand Win32 (avds_of_stdout pixel_output_crlf ! 0))"
proof -
  have a: "avds_of_stdout pixel_output_crlf = [js ''Pixel_5'' @ [CR], js ''Pixel_7'']"
    by (simp add: avds_of_stdout_def trim_def trim_start_def trim_end_def
        pixel_output_crlf_def js_def LF_def CR_def is_ws_def)
  have b: "inventory_rule pixel_output_crlf = [js ''Pixel_5'', js ''Pixel_7'']"
    by (simp add: inventory_rule_def trim_def trim_start_def trim_end_def
        pixel_output_crlf_def js_def LF_def CR_def is_ws_def)
  have c: "js ''Pixel_5'' @ [CR] \<noteq> js ''Pixel_5''"
    by simp
  have d: "CR \<in> set (getEmulatorCommand Win32 (js ''Pixel_5'' @ [CR]))"
    by (simp add: getEmulatorCommand_def)
  from a b c d show ?thesis by simp
qed

subsection \<open>Failure of the fetch, and listing mode\<close>



lemma getAVDList_ok:
  "d_error d = None \<Longrightarrow> avds_of_stdout (d_stdout d) \<noteq> [] \<Longrightarrow>
   getAVDList d = ([Log MFetching], Fulfilled (avds_of_stdout (d_stdout d)))"
  by (simp add: getAVDList_def)




section \<open>Properties of the Selector\<close>

lemma handleKeypress_fulfilled:
  "handleKeypress avds st k = (t, st', Fulfilled s) \<Longrightarrow>
   s \<noteq> [] \<and> s = checked_avds avds (selected st') \<and> selected st' = selected st
   \<and> \<not> rawMode st' \<and> t = [SetRawMode False, RemoveListener]"
  by (auto simp: handleKeypress_def Let_def split: option.splits keyname.splits if_splits)

lemma rl_keypress_selected: "selected (snd (rl_keypress st k)) = selected st"
  by (simp add: rl_keypress_def split: option.splits)

lemma select_loop_fulfilled:
  "select_loop avds st ins = (t, st', Fulfilled s) \<Longrightarrow>
   s \<noteq> [] \<and> s = checked_avds avds (selected st') \<and> \<not> rawMode st'"
proof (induction avds st ins arbitrary: t rule: select_loop.induct)
  case (1 avds st)
  then show ?case by simp
next
  case (2 avds st k ins)
  obtain t0 st0 where r0: "rl_keypress st k = (t0, st0)"
    by (cases "rl_keypress st k") auto
  obtain t1 st1 p1 where h: "handleKeypress avds st0 k = (t1, st1, p1)"
    by (cases "handleKeypress avds st0 k") auto
  show ?case
  proof (cases p1)
    case Pending
    obtain t2 r2 where r: "select_loop avds st1 ins = (t2, r2)"
      by (cases "select_loop avds st1 ins") auto
    with "2.prems" r0 h Pending have "r2 = (st', Fulfilled s)" by simp
    with r have "select_loop avds st1 ins = (t2, st', Fulfilled s)" by simp
    with "2.IH"[OF r0[symmetric] h[symmetric] refl Pending] show ?thesis by blast
  next
    case (Fulfilled x)
    with "2.prems" r0 h have "handleKeypress avds st0 k = (t1, st', Fulfilled s)" by simp
    then show ?thesis using handleKeypress_fulfilled by blast
  qed (use "2.prems" r0 h in auto)
next
  case (3 avds st ins)
  show ?case
  proof (cases "timers st > 0")
    case True
    obtain t2 r2 where r: "select_loop avds (st\<lparr>timers := timers st - 1\<rparr>) ins = (t2, r2)"
      by (cases "select_loop avds (st\<lparr>timers := timers st - 1\<rparr>) ins") auto
    with "3.prems" True have "r2 = (st', Fulfilled s)" by simp
    with r have "select_loop avds (st\<lparr>timers := timers st - 1\<rparr>) ins = (t2, st', Fulfilled s)"
      by simp
    with "3.IH"(1)[OF True] show ?thesis by blast
  next
    case False
    with "3.prems" have "select_loop avds st ins = (t, st', Fulfilled s)" by simp
    with "3.IH"(2)[OF False] show ?thesis by blast
  qed
qed

lemma selectAVDsBuiltIn_fulfilled:
  "selectAVDsBuiltIn tty avds ins = (t, st', Fulfilled s) \<Longrightarrow>
   s \<noteq> [] \<and> s = checked_avds avds (selected st') \<and> \<not> rawMode st'"
proof -
  assume a: "selectAVDsBuiltIn tty avds ins = (t, st', Fulfilled s)"
  let ?st0 = "\<lparr>selected = replicate (length avds) False, currentIndex = 0,
                 rawMode = False, timers = 0\<rparr>"
  from a have tty: tty
    by (cases tty) (simp_all add: selectAVDsBuiltIn_def Let_def)
  obtain t2 r2 where r: "select_loop avds (?st0\<lparr>rawMode := True\<rparr>) ins = (t2, r2)"
    by (cases "select_loop avds (?st0\<lparr>rawMode := True\<rparr>) ins") auto
  with a tty have "r2 = (st', Fulfilled s)" by (simp add: selectAVDsBuiltIn_def Let_def)
  with r select_loop_fulfilled show ?thesis by blast
qed

lemma subseq_checked_from:
  "subseq (map snd (filter (\<lambda>(index, avd). P index) (enumerate n avds))) avds"
  by (induction avds arbitrary: n) auto

lemma subseq_checked_avds: "subseq (checked_avds avds sel) avds"
  by (simp add: checked_avds_def subseq_checked_from)

lemma inquirer_checkbox_validated:
  "inquirer_checkbox choices val submissions = Fulfilled input \<Longrightarrow> val input = Inr True"
  by (induction submissions) (auto simp: Let_def split: sum.splits bool.splits if_splits)

lemma selectAVDsInquirer_fulfilled:
  "selectAVDsInquirer avds submissions = (t, Fulfilled s) \<Longrightarrow> s \<noteq> []"
proof -
  assume a: "selectAVDsInquirer avds submissions = (t, Fulfilled s)"
  then have "inquirer_checkbox avds validate submissions = Fulfilled s"
    by (auto simp: selectAVDsInquirer_def split: promise.splits)
  then have "validate s = Inr True" by (rule inquirer_checkbox_validated)
  then show ?thesis by (auto simp: validate_def split: if_splits)
qed

lemma return_on_empty:
  "checked_avds avds (selected st) = [] \<Longrightarrow>
   handleKeypress avds st (Some \<lparr>kname = KReturn, kctrl = c\<rparr>)
     = ([Log MPleaseSelect, SetTimeout 1500], st\<lparr>timers := timers st + 1\<rparr>, Pending)"
  by (simp add: handleKeypress_def)


lemma timer_redisplays:
  "0 < timers st \<Longrightarrow>
   fst (select_loop avds st (TimerFires # rest))
     = displayMenu avds st @ fst (select_loop avds (st\<lparr>timers := timers st - 1\<rparr>) rest)"
  by (simp split: prod.splits)

subsection \<open>Evaluating a run of the menu\<close>

lemma handle_snd_up:
  "snd (handleKeypress avds st (Some \<lparr>kname = KUp, kctrl = c\<rparr>))
     = (st\<lparr>currentIndex := (if currentIndex st > 0 then currentIndex st - 1
                               else int (length avds) - 1)\<rparr>, Pending)"
  by (simp add: handleKeypress_def Let_def)

lemma handle_snd_down:
  "snd (handleKeypress avds st (Some \<lparr>kname = KDown, kctrl = c\<rparr>))
     = (st\<lparr>currentIndex := (if currentIndex st < int (length avds) - 1
                               then currentIndex st + 1 else 0)\<rparr>, Pending)"
  by (simp add: handleKeypress_def Let_def)

lemma handle_snd_space:
  "snd (handleKeypress avds st (Some \<lparr>kname = KSpace, kctrl = c\<rparr>))
     = (st\<lparr>selected := toggle (selected st) (currentIndex st)\<rparr>, Pending)"
  by (simp add: handleKeypress_def Let_def)

lemma handle_snd_return:
  "snd (handleKeypress avds st (Some \<lparr>kname = KReturn, kctrl = c\<rparr>))
     = (if checked_avds avds (selected st) = []
        then (st\<lparr>timers := timers st + 1\<rparr>, Pending)
        else (st\<lparr>rawMode := False\<rparr>, Fulfilled (checked_avds avds (selected st))))"
  by (simp add: handleKeypress_def Let_def)

lemma rl_keypress_no_ctrl: "snd (rl_keypress st (Some \<lparr>kname = n, kctrl = False\<rparr>)) = st"
  by (simp add: rl_keypress_def)

lemma select_loop_snd_key:
  "snd (select_loop avds st (Keypress k # ins))
     = (if snd (snd (handleKeypress avds (snd (rl_keypress st k)) k)) = Pending
        then snd (select_loop avds (fst (snd (handleKeypress avds (snd (rl_keypress st k)) k))) ins)
        else snd (handleKeypress avds (snd (rl_keypress st k)) k))"
  by (auto split: prod.splits promise.splits)

lemma select_loop_snd_timer:
  "snd (select_loop avds st (TimerFires # ins))
     = (if timers st > 0 then snd (select_loop avds (st\<lparr>timers := timers st - 1\<rparr>) ins)
        else snd (select_loop avds st ins))"
  by (simp split: prod.splits)

lemma selectAVDsBuiltIn_snd:
  "snd (selectAVDsBuiltIn True avds ins) = snd (select_loop avds (menu_start avds) ins)"
  by (simp add: selectAVDsBuiltIn_def Let_def menu_start_def split: prod.splits)

lemmas menu_eval =
  selectAVDsBuiltIn_snd select_loop_snd_key select_loop_snd_timer rl_keypress_no_ctrl
  handle_snd_up handle_snd_down handle_snd_space handle_snd_return
  press_def menu_start_def checked_avds_def checked_def toggle_def

text \<open>
  Claim C5. The Selector never hands an empty selection to its caller. When the promise of
  the raw-keyboard menu is fulfilled, the selection is not empty. Return with nothing
  checked leaves the promise pending: it prints the request to select at least one AVD
  and schedules a redisplay, and when that falls due the menu is printed again. The
  checkbox prompt of inquirer, with the validation function of the program, ends only
  with a selection that is not empty.
\<close>

theorem selector_never_returns_empty:
  "(snd (snd (selectAVDsBuiltIn tty avds ins)) = Fulfilled s \<longrightarrow> s \<noteq> [])
   \<and> (checked_avds avds (selected st) = [] \<longrightarrow>
        handleKeypress avds st (Some \<lparr>kname = KReturn, kctrl = c\<rparr>)
          = ([Log MPleaseSelect, SetTimeout 1500], st\<lparr>timers := timers st + 1\<rparr>, Pending))
   \<and> (0 < timers st \<longrightarrow>
        fst (select_loop avds st (TimerFires # rest))
          = displayMenu avds st @ fst (select_loop avds (st\<lparr>timers := timers st - 1\<rparr>) rest))
   \<and> (snd (selectAVDsInquirer avds submissions) = Fulfilled s' \<longrightarrow> s' \<noteq> [])"
proof -
  have "s \<noteq> []" if "snd (snd (selectAVDsBuiltIn tty avds ins)) = Fulfilled s"
  proof -
    from that have "selectAVDsBuiltIn tty avds ins
        = (fst (selectAVDsBuiltIn tty avds ins), fst (snd (selectAVDsBuiltIn tty avds ins)), Fulfilled s)"
      by (metis prod.collapse)
    then show ?thesis using selectAVDsBuiltIn_fulfilled by blast
  qed
  moreover have "s' \<noteq> []" if "snd (selectAVDsInquirer avds submissions) = Fulfilled s'"
  proof -
    from that have "selectAVDsInquirer avds submissions
        = (fst (selectAVDsInquirer avds submissions), Fulfilled s')"
      by (metis prod.collapse)
    then show ?thesis using selectAVDsInquirer_fulfilled by blast
  qed
  ultimately show ?thesis
    using return_on_empty[of avds st c] timer_redisplays[of st avds rest] by blast
qed

definition kp :: "keyname \<Rightarrow> input" where
  "kp n = Keypress (Some \<lparr>kname = n, kctrl = False\<rparr>)"



theorem selector_never_returns_empty_witness:
  "snd (snd (selectAVDsBuiltIn True two_avds
               [press KReturn, TimerFires, press KDown, press KSpace, press KReturn]))
     = Fulfilled [js ''Pixel_7'']
   \<and> [js ''Pixel_7''] \<noteq> []
   \<and> checked_avds two_avds (selected (menu_start two_avds)) = []
   \<and> handleKeypress two_avds (menu_start two_avds) (Some \<lparr>kname = KReturn, kctrl = False\<rparr>)
       = ([Log MPleaseSelect, SetTimeout 1500], menu_start two_avds\<lparr>timers := 1\<rparr>, Pending)
   \<and> fst (select_loop two_avds (menu_start two_avds\<lparr>timers := 1\<rparr>) [TimerFires])
       = displayMenu two_avds (menu_start two_avds)
   \<and> snd (selectAVDsInquirer two_avds [[False, False], [False, True]])
       = Fulfilled [js ''Pixel_7'']"
proof -
  have a: "snd (snd (selectAVDsBuiltIn True two_avds
               [press KReturn, TimerFires, press KDown, press KSpace, press KReturn]))
     = Fulfilled [js ''Pixel_7'']"
    by (simp add: menu_eval two_avds_def del: select_loop.simps(2,3))
  have b: "checked_avds two_avds (selected (menu_start two_avds)) = []"
    by code_simp
  have c: "0 < timers (menu_start two_avds\<lparr>timers := 1\<rparr>)"
    by simp
  have d: "snd (selectAVDsInquirer two_avds [[False, False], [False, True]])
       = Fulfilled [js ''Pixel_7'']"
    by code_simp
  have e: "displayMenu two_avds (menu_start two_avds\<lparr>timers := 1\<rparr>)
             = displayMenu two_avds (menu_start two_avds)"
    by (simp add: displayMenu_def)
  have f: "timers (menu_start two_avds) + 1 = 1"
    by (simp add: menu_start_def)
  note thm1 = selector_never_returns_empty
      [of True two_avds "[press KReturn, TimerFires, press KDown, press KSpace, press KReturn]"
          "[js ''Pixel_7'']" "menu_start two_avds" False "[]"
          "[[False, False], [False, True]]" "[js ''Pixel_7'']"]
  note thm2 = selector_never_returns_empty
      [of True two_avds "[]" "[]" "menu_start two_avds\<lparr>timers := 1\<rparr>" False "[]" "[]" "[]"]
  from thm1 a b d f have "[js ''Pixel_7''] \<noteq> []
     \<and> handleKeypress two_avds (menu_start two_avds) (Some \<lparr>kname = KReturn, kctrl = False\<rparr>)
       = ([Log MPleaseSelect, SetTimeout 1500], menu_start two_avds\<lparr>timers := 1\<rparr>, Pending)"
    by simp
  moreover from thm2 c e
  have "fst (select_loop two_avds (menu_start two_avds\<lparr>timers := 1\<rparr>) [TimerFires])
       = displayMenu two_avds (menu_start two_avds)"
    by simp
  ultimately show ?thesis using a b d by blast
qed

section \<open>Properties of the Launch Strategy Selector\<close>

text \<open>
  Claim C8. With exactly one device selected, the strategy is Parallel and nothing is
  printed or asked. With two or more devices in the readline interface, an answer that,
  trimmed, is none of "1", "2" and "3" gives Parallel after the warning that the choice is
  invalid; the promise is fulfilled.
\<close>

theorem single_device_is_parallel:
  "(length selectedAVDs = 1 \<longrightarrow>
      selectLaunchOptions useInquirer selectedAVDs picked answer = ([], Fulfilled Parallel))
   \<and> (2 \<le> length selectedAVDs \<and> trim answer \<noteq> js ''1'' \<and> trim answer \<noteq> js ''2''
        \<and> trim answer \<noteq> js ''3'' \<longrightarrow>
      selectLaunchOptions False selectedAVDs picked answer
        = ([Log MHowLaunch, Log MOption1, Log MOption2, Log MOption3,
            RlQuestion QLaunchChoice, Log MInvalidChoice], Fulfilled Parallel))"
  by (simp add: selectLaunchOptions_def)

theorem single_device_is_parallel_witness:
  "length [js ''Pixel_5''] = 1
   \<and> selectLaunchOptions True [js ''Pixel_5''] Sequential (js ''3'') = ([], Fulfilled Parallel)
   \<and> selectLaunchOptions False [js ''Pixel_5''] Sequential (js ''3'') = ([], Fulfilled Parallel)
   \<and> 2 \<le> length two_avds \<and> trim (js ''four'') \<noteq> js ''1'' \<and> trim (js ''four'') \<noteq> js ''2''
   \<and> trim (js ''four'') \<noteq> js ''3''
   \<and> selectLaunchOptions False two_avds Sequential (js ''four'')
        = ([Log MHowLaunch, Log MOption1, Log MOption2, Log MOption3,
            RlQuestion QLaunchChoice, Log MInvalidChoice], Fulfilled Parallel)"
proof -
  have a: "2 \<le> length two_avds" by (simp add: two_avds_def)
  have b: "trim (js ''four'') \<noteq> js ''1'' \<and> trim (js ''four'') \<noteq> js ''2''
   \<and> trim (js ''four'') \<noteq> js ''3''"
    by (simp add: trim_def trim_start_def trim_end_def js_def is_ws_def)
  show ?thesis
    using single_device_is_parallel[of "[js ''Pixel_5'']" True Sequential "js ''3''"]
      single_device_is_parallel[of "[js ''Pixel_5'']" False Sequential "js ''3''"]
      single_device_is_parallel[of two_avds False Sequential "js ''four''"] a b
    by simp
qed

section \<open>Raw mode on the quit paths\<close>

lemma timer_pending_after_confirm:
  "timers (fst (snd (selectAVDsBuiltIn True two_avds
                       [press KReturn, press KSpace, press KReturn])))
     = 1"
  by (simp add: menu_eval two_avds_def del: select_loop.simps(2,3))

lemma ctrl_c_leaves_raw_mode_first:
  "selectAVDsBuiltIn True [js ''Pixel_5''] [Keypress (Some \<lparr>kname = KC, kctrl = True\<rparr>)]
     = (displayMenu [js ''Pixel_5'']
          \<lparr>selected = [False], currentIndex = 0, rawMode = False, timers = 0\<rparr>
        @ [SetRawMode True, Resume, SetEncoding, AddListener,
           Pause, SetRawMode False, Log MGoodbye, Exit 0],
        \<lparr>selected = [False], currentIndex = 0, rawMode = False, timers = 0\<rparr>, Exited 0)"
  by (simp add: selectAVDsBuiltIn_def Let_def handleKeypress_def rl_keypress_def)

lemma not_a_terminal_rejects:
  "snd (snd (selectAVDsBuiltIn False avds ins))
     = Rejected (js ''process.stdin.setRawMode is not a function'')"
  by (simp add: selectAVDsBuiltIn_def Let_def)

text \<open>
  Claim C9 does not hold on the quit path of the key q. With one device shown, q ends the
  process with status 0 while standard input is still in raw mode:
  \<^verbatim>\<open>setRawMode(false)\<close> is not among the effects. The confirm path calls it before
  resolving (lemma \<open>selectAVDsBuiltIn_fulfilled\<close>), and on Ctrl-C the readline interface
  has left raw mode before the handler exits (lemma \<open>ctrl_c_leaves_raw_mode_first\<close>).
\<close>

theorem quit_leaves_raw_mode:
  "selectAVDsBuiltIn True [js ''Pixel_5''] [press KQ]
     = (displayMenu [js ''Pixel_5'']
          \<lparr>selected = [False], currentIndex = 0, rawMode = False, timers = 0\<rparr>
        @ [SetRawMode True, Resume, SetEncoding, AddListener, Log MGoodbye, Exit 0],
        \<lparr>selected = [False], currentIndex = 0, rawMode = True, timers = 0\<rparr>, Exited 0)
   \<and> SetRawMode False \<notin> set (fst (selectAVDsBuiltIn True [js ''Pixel_5''] [press KQ]))"
  by (simp add: selectAVDsBuiltIn_def Let_def handleKeypress_def rl_keypress_def press_def
      displayMenu_def)

section \<open>Properties of the Launch Scheduler\<close>

subsection \<open>Reading the trace of one launch\<close>

lemma execs_append: "execs (a @ b) = execs a @ execs b"
  by (induction a rule: execs.induct) auto

lemma sleeps_append: "sleeps (a @ b) = sleeps a @ sleeps b"
  by (induction a rule: sleeps.induct) auto

lemma acks_append: "acks (a @ b) = acks a @ acks b"
  by (induction a rule: acks.induct) auto

lemma reports_append: "reports (a @ b) = reports a @ reports b"
  by (simp add: reports_def map_filter_def)

lemma follows_append:
  "follows step ph (a @ b)
     = (case follows step ph a of None \<Rightarrow> None | Some ph' \<Rightarrow> follows step ph' b)"
  by (induction a arbitrary: ph) (auto split: option.splits)

lemma follows_append_Some:
  "follows step ph a = Some ph' \<Longrightarrow> follows step ph (a @ b) = follows step ph' b"
  by (simp add: follows_append)

lemma execs_callbacks: "execs (launchAVD_callbacks avd r) = []"
  by (simp add: launchAVD_callbacks_def split: option.splits)

lemma sleeps_callbacks: "sleeps (launchAVD_callbacks avd r) = []"
  by (simp add: launchAVD_callbacks_def split: option.splits)

lemma acks_callbacks: "acks (launchAVD_callbacks avd r) = []"
  by (simp add: launchAVD_callbacks_def split: option.splits)

lemmas trace_simps =
  execs_append sleeps_append acks_append execs_callbacks sleeps_callbacks acks_callbacks

lemma launchAVD_issued:
  "exec_throws (getEmulatorCommand plat avd) r = None \<Longrightarrow>
   launchAVD plat avd r
     = (Log (MLaunching avd) # Exec (getEmulatorCommand plat avd) # launchAVD_callbacks avd r,
        Fulfilled ())"
  by (simp add: launchAVD_def launchAVD_executor_def)

lemma launchAVD_thrown:
  "exec_throws (getEmulatorCommand plat avd) r = Some err \<Longrightarrow>
   launchAVD plat avd r = ([Log (MLaunching avd)], Rejected err)"
  by (simp add: launchAVD_def launchAVD_executor_def)

lemma spawns_issued_Nil: "spawns_issued plat replies n []"
  by (simp add: spawns_issued_def)

lemma spawns_issued_Cons:
  "spawns_issued plat replies n (avd # rest)
     = (exec_throws (getEmulatorCommand plat avd) (replies n) = None
        \<and> spawns_issued plat replies (Suc n) rest)"
  by (simp add: spawns_issued_def)

lemma spawns_issued_nth:
  "spawns_issued plat replies n sel \<Longrightarrow> k < length sel \<Longrightarrow>
   exec_throws (getEmulatorCommand plat (sel ! k)) (replies (n + k)) = None"
proof (induction sel arbitrary: n k)
  case Nil
  then show ?case by simp
next
  case (Cons avd rest)
  show ?case
  proof (cases k)
    case 0
    with Cons.prems show ?thesis by (simp add: spawns_issued_Cons)
  next
    case (Suc k')
    with Cons.prems have "spawns_issued plat replies (Suc n) rest" "k' < length rest"
      by (simp_all add: spawns_issued_Cons)
    from Cons.IH[OF this] Suc show ?thesis by simp
  qed
qed

subsection \<open>Sequential\<close>

lemma sequential_from_issued:
  "exec_throws (getEmulatorCommand plat avd) (replies i) = None \<Longrightarrow>
   launchAVDsSequential_from ui plat replies i (avd # rest)
     = ((if ui then InquirerPrompt (QPressEnter avd) else RlQuestion (QPressEnter avd))
          # Log (MLaunching avd) # Exec (getEmulatorCommand plat avd)
          # launchAVD_callbacks avd (replies i) @ [Log MBlank]
          @ fst (launchAVDsSequential_from ui plat replies (i + 1) rest),
        snd (launchAVDsSequential_from ui plat replies (i + 1) rest))"
  by (simp add: launchAVD_issued Let_def split: prod.splits)

lemma sequential_from_thrown:
  "exec_throws (getEmulatorCommand plat avd) (replies i) = Some err \<Longrightarrow>
   launchAVDsSequential_from ui plat replies i (avd # rest)
     = ([if ui then InquirerPrompt (QPressEnter avd) else RlQuestion (QPressEnter avd),
         Log (MLaunching avd)], Rejected err)"
  by (simp add: launchAVD_thrown Let_def)

lemma execs_ask:
  "execs ((if ui then InquirerPrompt q else RlQuestion q) # t) = execs t"
  by simp

lemma sleeps_ask:
  "sleeps ((if ui then InquirerPrompt q else RlQuestion q) # t) = sleeps t"
  by simp

lemma acks_ask:
  "acks ((if ui then InquirerPrompt (QPressEnter avd) else RlQuestion (QPressEnter avd)) # t)
     = avd # acks t"
  by simp

lemmas ask_simps = execs_ask sleeps_ask acks_ask

lemma sequential_from_fulfilled:
  "spawns_issued plat replies i sel \<Longrightarrow>
   snd (launchAVDsSequential_from ui plat replies i sel) = Fulfilled ()"
  by (induction sel arbitrary: i)
     (simp_all add: spawns_issued_Cons sequential_from_issued
        del: launchAVDsSequential_from.simps(2))

lemma sequential_from_execs:
  "spawns_issued plat replies i sel \<Longrightarrow>
   execs (fst (launchAVDsSequential_from ui plat replies i sel))
     = map (getEmulatorCommand plat) sel"
  by (induction sel arbitrary: i)
     (simp_all add: spawns_issued_Cons sequential_from_issued trace_simps ask_simps
        del: launchAVDsSequential_from.simps(2))

lemma sequential_from_acks:
  "spawns_issued plat replies i sel \<Longrightarrow>
   acks (fst (launchAVDsSequential_from ui plat replies i sel)) = sel"
  by (induction sel arbitrary: i)
     (simp_all add: spawns_issued_Cons sequential_from_issued trace_simps ask_simps
        del: launchAVDsSequential_from.simps(2))

lemma sequential_from_execs_prefix:
  "prefix (execs (fst (launchAVDsSequential_from ui plat replies i sel)))
          (map (getEmulatorCommand plat) sel)"
proof (induction sel arbitrary: i)
  case Nil
  then show ?case by simp
next
  case (Cons avd rest)
  show ?case
  proof (cases "exec_throws (getEmulatorCommand plat avd) (replies i)")
    case None
    with Cons.IH[of "i + 1"] show ?thesis
      by (simp add: sequential_from_issued trace_simps ask_simps
          del: launchAVDsSequential_from.simps(2))
  next
    case (Some err)
    then show ?thesis
      by (simp add: sequential_from_thrown ask_simps del: launchAVDsSequential_from.simps(2))
  qed
qed

lemma sequential_from_acks_prefix:
  "prefix (acks (fst (launchAVDsSequential_from ui plat replies i sel))) sel"
proof (induction sel arbitrary: i)
  case Nil
  then show ?case by simp
next
  case (Cons avd rest)
  show ?case
  proof (cases "exec_throws (getEmulatorCommand plat avd) (replies i)")
    case None
    with Cons.IH[of "i + 1"] show ?thesis
      by (simp add: sequential_from_issued trace_simps ask_simps
          del: launchAVDsSequential_from.simps(2))
  next
    case (Some err)
    then show ?thesis
      by (simp add: sequential_from_thrown ask_simps del: launchAVDsSequential_from.simps(2))
  qed
qed

lemma sequential_follows_launch:
  "follows (sequential_step plat) (Acked avd)
     (Log (MLaunching avd) # Exec (getEmulatorCommand plat avd)
        # launchAVD_callbacks avd r @ [Log MBlank]) = Some Done"
  by (auto simp: launchAVD_callbacks_def split: option.splits)

lemma sequential_follows_ask:
  "ph = Idle \<or> ph = Done \<Longrightarrow>
   follows (sequential_step plat) ph
     [if ui then InquirerPrompt (QPressEnter avd) else RlQuestion (QPressEnter avd)]
     = Some (Acked avd)"
  by auto

lemma sequential_from_safe:
  "ph = Idle \<or> ph = Done \<Longrightarrow>
   follows (sequential_step plat) ph (fst (launchAVDsSequential_from ui plat replies i sel))
     \<noteq> None"
proof (induction sel arbitrary: i ph)
  case Nil
  then show ?case by simp
next
  case (Cons avd rest)
  let ?ask = "[if ui then InquirerPrompt (QPressEnter avd) else RlQuestion (QPressEnter avd)]"
  have ack: "follows (sequential_step plat) ph ?ask = Some (Acked avd)"
    using Cons.prems by (rule sequential_follows_ask)
  show ?case
  proof (cases "exec_throws (getEmulatorCommand plat avd) (replies i)")
    case None
    let ?launch = "Log (MLaunching avd) # Exec (getEmulatorCommand plat avd)
        # launchAVD_callbacks avd (replies i) @ [Log MBlank]"
    let ?rest = "fst (launchAVDsSequential_from ui plat replies (i + 1) rest)"
    have split: "fst (launchAVDsSequential_from ui plat replies i (avd # rest))
                   = ?ask @ (?launch @ ?rest)"
      using None by (simp add: sequential_from_issued del: launchAVDsSequential_from.simps(2))
    have "follows (sequential_step plat) ph (?ask @ (?launch @ ?rest))
            = follows (sequential_step plat) (Acked avd) (?launch @ ?rest)"
      by (rule follows_append_Some[OF ack])
    also have "\<dots> = follows (sequential_step plat) Done ?rest"
      by (rule follows_append_Some[OF sequential_follows_launch])
    finally show ?thesis
      using Cons.IH[of Done "i + 1"] by (simp only: split) simp
  next
    case (Some err)
    have split: "fst (launchAVDsSequential_from ui plat replies i (avd # rest))
                   = ?ask @ [Log (MLaunching avd)]"
      using Some by (simp add: sequential_from_thrown del: launchAVDsSequential_from.simps(2))
    have "follows (sequential_step plat) ph (?ask @ [Log (MLaunching avd)])
            = follows (sequential_step plat) (Acked avd) [Log (MLaunching avd)]"
      by (rule follows_append_Some[OF ack])
    then show ?thesis by (simp only: split) simp
  qed
qed

lemma sequential_from_follows:
  "spawns_issued plat replies i sel \<Longrightarrow> ph = Idle \<or> ph = Done \<Longrightarrow>
   follows (sequential_step plat) ph (fst (launchAVDsSequential_from ui plat replies i sel))
     = Some (if sel = [] then ph else Done)"
proof (induction sel arbitrary: i ph)
  case Nil
  then show ?case by simp
next
  case (Cons avd rest)
  let ?ask = "[if ui then InquirerPrompt (QPressEnter avd) else RlQuestion (QPressEnter avd)]"
  let ?launch = "Log (MLaunching avd) # Exec (getEmulatorCommand plat avd)
        # launchAVD_callbacks avd (replies i) @ [Log MBlank]"
  let ?rest = "fst (launchAVDsSequential_from ui plat replies (i + 1) rest)"
  from Cons.prems(1) have none: "exec_throws (getEmulatorCommand plat avd) (replies i) = None"
    and rest: "spawns_issued plat replies (i + 1) rest"
    by (simp_all add: spawns_issued_Cons)
  have split: "fst (launchAVDsSequential_from ui plat replies i (avd # rest))
                 = ?ask @ (?launch @ ?rest)"
    using none by (simp add: sequential_from_issued del: launchAVDsSequential_from.simps(2))
  have ack: "follows (sequential_step plat) ph ?ask = Some (Acked avd)"
    using Cons.prems(2) by (rule sequential_follows_ask)
  have "follows (sequential_step plat) ph (?ask @ (?launch @ ?rest))
          = follows (sequential_step plat) (Acked avd) (?launch @ ?rest)"
    by (rule follows_append_Some[OF ack])
  also have "\<dots> = follows (sequential_step plat) Done ?rest"
    by (rule follows_append_Some[OF sequential_follows_launch])
  also have "\<dots> = Some Done"
    using Cons.IH[OF rest, of Done] by simp
  finally show ?case by (simp only: split) simp
qed


subsection \<open>Delayed\<close>

lemma delayed_from_issued:
  "i < length sel \<Longrightarrow> exec_throws (getEmulatorCommand plat (sel ! i)) (replies i) = None \<Longrightarrow>
   launchAVDsDelayed_from plat sel replies i
     = (Log (MLaunching (sel ! i)) # Exec (getEmulatorCommand plat (sel ! i))
          # launchAVD_callbacks (sel ! i) (replies i)
          @ (if i + 1 < length sel then [Log MWaiting, Sleep 3000] else [])
          @ fst (launchAVDsDelayed_from plat sel replies (i + 1)),
        snd (launchAVDsDelayed_from plat sel replies (i + 1)))"
  by (subst launchAVDsDelayed_from.simps) (auto simp: launchAVD_issued split: prod.splits)

lemma delayed_from_thrown:
  "i < length sel \<Longrightarrow> exec_throws (getEmulatorCommand plat (sel ! i)) (replies i) = Some err \<Longrightarrow>
   launchAVDsDelayed_from plat sel replies i = ([Log (MLaunching (sel ! i))], Rejected err)"
  by (subst launchAVDsDelayed_from.simps) (simp add: launchAVD_thrown)

lemma delayed_from_end:
  "\<not> i < length sel \<Longrightarrow> launchAVDsDelayed_from plat sel replies i = ([], Fulfilled ())"
  by (subst launchAVDsDelayed_from.simps) simp

lemma delayed_from_execs_prefix:
  "prefix (execs (fst (launchAVDsDelayed_from plat sel replies i)))
          (map (getEmulatorCommand plat) (drop i sel))"
proof (induction "length sel - i" arbitrary: i)
  case 0
  then show ?case by (simp add: delayed_from_end)
next
  case (Suc n)
  then have lt: "i < length sel" and n: "n = length sel - (i + 1)" by auto
  have dr: "drop i sel = sel ! i # drop (Suc i) sel"
    using lt by (simp add: Cons_nth_drop_Suc)
  show ?case
  proof (cases "exec_throws (getEmulatorCommand plat (sel ! i)) (replies i)")
    case None
    from Suc.hyps(1)[OF n]
    have ih: "prefix (execs (fst (launchAVDsDelayed_from plat sel replies (Suc i))))
                     (map (getEmulatorCommand plat) (drop (Suc i) sel))" by simp
    have e: "execs (fst (launchAVDsDelayed_from plat sel replies i))
               = getEmulatorCommand plat (sel ! i)
                 # execs (fst (launchAVDsDelayed_from plat sel replies (Suc i)))"
      using lt None by (simp add: delayed_from_issued trace_simps)
    show ?thesis
      unfolding e dr using ih by simp
  next
    case (Some err)
    with lt show ?thesis by (simp add: delayed_from_thrown)
  qed
qed

lemma delayed_from_fulfilled:
  "spawns_issued plat replies 0 sel \<Longrightarrow>
   snd (launchAVDsDelayed_from plat sel replies i) = Fulfilled ()"
proof (induction "length sel - i" arbitrary: i)
  case 0
  then show ?case by (simp add: delayed_from_end)
next
  case (Suc n)
  then have lt: "i < length sel" and n: "n = length sel - (i + 1)" by auto
  from spawns_issued_nth[OF Suc.prems lt]
  have none: "exec_throws (getEmulatorCommand plat (sel ! i)) (replies i) = None" by simp
  from Suc.hyps(1)[OF n Suc.prems] lt none show ?case
    by (simp add: delayed_from_issued)
qed

lemma delayed_from_execs:
  "spawns_issued plat replies 0 sel \<Longrightarrow>
   execs (fst (launchAVDsDelayed_from plat sel replies i))
     = map (getEmulatorCommand plat) (drop i sel)"
proof (induction "length sel - i" arbitrary: i)
  case 0
  then show ?case by (simp add: delayed_from_end)
next
  case (Suc n)
  then have lt: "i < length sel" and n: "n = length sel - (i + 1)" by auto
  from spawns_issued_nth[OF Suc.prems lt]
  have none: "exec_throws (getEmulatorCommand plat (sel ! i)) (replies i) = None" by simp
  have dr: "drop i sel = sel ! i # drop (Suc i) sel"
    using lt by (simp add: Cons_nth_drop_Suc)
  from Suc.hyps(1)[OF n Suc.prems]
  have "execs (fst (launchAVDsDelayed_from plat sel replies (Suc i)))
          = map (getEmulatorCommand plat) (drop (Suc i) sel)" by simp
  with lt none show ?case
    by (simp add: delayed_from_issued trace_simps dr)
qed

lemma delayed_from_sleeps:
  "spawns_issued plat replies 0 sel \<Longrightarrow>
   sleeps (fst (launchAVDsDelayed_from plat sel replies i))
     = replicate (length sel - 1 - i) 3000"
proof (induction "length sel - i" arbitrary: i)
  case 0
  then show ?case by (simp add: delayed_from_end)
next
  case (Suc n)
  then have lt: "i < length sel" and n: "n = length sel - (i + 1)" by auto
  from spawns_issued_nth[OF Suc.prems lt]
  have none: "exec_throws (getEmulatorCommand plat (sel ! i)) (replies i) = None" by simp
  from Suc.hyps(1)[OF n Suc.prems]
  have ih: "sleeps (fst (launchAVDsDelayed_from plat sel replies (Suc i)))
          = replicate (length sel - 1 - (i + 1)) 3000" by simp
  show ?case
  proof (cases "i + 1 < length sel")
    case True
    then have "length sel - 1 - i = Suc (length sel - 1 - (i + 1))" by simp
    with True lt none ih show ?thesis
      by (simp add: delayed_from_issued trace_simps)
  next
    case False
    with lt none ih show ?thesis
      by (simp add: delayed_from_issued trace_simps)
  qed
qed

lemma delayed_follows_launch:
  "ph = Idle \<or> ph = Waited \<Longrightarrow>
   follows (delayed_step plat) ph
     (Log (MLaunching avd) # Exec (getEmulatorCommand plat avd) # launchAVD_callbacks avd r)
     = Some Done"
  by (auto simp: launchAVD_callbacks_def split: option.splits)

lemma delayed_from_follows:
  "spawns_issued plat replies 0 sel \<Longrightarrow> i < length sel \<Longrightarrow> ph = Idle \<or> ph = Waited \<Longrightarrow>
   follows (delayed_step plat) ph (fst (launchAVDsDelayed_from plat sel replies i)) = Some Done"
proof (induction "length sel - i" arbitrary: i ph)
  case 0
  then show ?case by simp
next
  case (Suc n)
  then have lt: "i < length sel" and n: "n = length sel - (i + 1)" by auto
  from spawns_issued_nth[OF Suc.prems(1) lt]
  have none: "exec_throws (getEmulatorCommand plat (sel ! i)) (replies i) = None" by simp
  let ?launch = "Log (MLaunching (sel ! i)) # Exec (getEmulatorCommand plat (sel ! i))
                   # launchAVD_callbacks (sel ! i) (replies i)"
  let ?rest = "fst (launchAVDsDelayed_from plat sel replies (i + 1))"
  have launch: "follows (delayed_step plat) ph ?launch = Some Done"
    using Suc.prems(3) by (rule delayed_follows_launch)
  show ?case
  proof (cases "i + 1 < length sel")
    case True
    have split: "fst (launchAVDsDelayed_from plat sel replies i)
                   = ?launch @ ([Log MWaiting, Sleep 3000] @ ?rest)"
      using lt True none by (simp add: delayed_from_issued)
    have wait: "follows (delayed_step plat) Done [Log MWaiting, Sleep 3000] = Some Waited"
      by simp
    have "follows (delayed_step plat) ph (?launch @ ([Log MWaiting, Sleep 3000] @ ?rest))
            = follows (delayed_step plat) Done ([Log MWaiting, Sleep 3000] @ ?rest)"
      by (rule follows_append_Some[OF launch])
    also have "\<dots> = follows (delayed_step plat) Waited ?rest"
      by (rule follows_append_Some[OF wait])
    also have "\<dots> = Some Done"
      using Suc.hyps(1)[OF n Suc.prems(1) True, of Waited] by simp
    finally show ?thesis by (simp only: split)
  next
    case False
    have split: "fst (launchAVDsDelayed_from plat sel replies i) = ?launch @ []"
      using lt False none by (simp add: delayed_from_issued delayed_from_end)
    have "follows (delayed_step plat) ph (?launch @ []) = follows (delayed_step plat) Done []"
      by (rule follows_append_Some[OF launch])
    then show ?thesis by (simp only: split follows.simps)
  qed
qed

subsection \<open>Parallel\<close>

lemma promise_all_issued:
  "spawns_issued plat replies n sel \<Longrightarrow>
   promise_all (map (\<lambda>(i, avd). snd (launchAVD plat avd (replies i))) (enumerate n sel))
     = Fulfilled ()"
  by (induction sel arbitrary: n) (simp_all add: spawns_issued_Cons launchAVD_issued)

lemma execs_executors_issued:
  "spawns_issued plat replies n sel \<Longrightarrow>
   execs (concat (map (\<lambda>(i, avd). launchAVD_executor plat avd (replies i)) (enumerate n sel)))
     = map (getEmulatorCommand plat) sel"
  by (induction sel arbitrary: n)
     (simp_all add: spawns_issued_Cons launchAVD_executor_def execs_append)

lemma execs_callbacks_list:
  "execs (concat (map (\<lambda>(i, avd). launchAVD_callbacks avd (replies i)) ys)) = []"
  by (induction ys) (auto simp: trace_simps)

lemma parallel_fulfilled:
  "spawns_issued plat replies 0 sel \<Longrightarrow>
   snd (launchAVDsParallel plat sel replies) = Fulfilled ()"
  by (simp add: launchAVDsParallel_def Let_def promise_all_issued)

lemma parallel_execs:
  "spawns_issued plat replies 0 sel \<Longrightarrow>
   execs (fst (launchAVDsParallel plat sel replies)) = map (getEmulatorCommand plat) sel"
  by (simp add: launchAVDsParallel_def Let_def promise_all_issued execs_append
      execs_executors_issued execs_callbacks_list)

subsection \<open>The three strategies when every spawn is issued\<close>

lemma delayed_trace:
  "fst (launchAVDsDelayed plat sel replies)
     = Log MStartDelayed # fst (launchAVDsDelayed_from plat sel replies 0)"
  by (simp add: launchAVDsDelayed_def split: prod.splits)

lemma delayed_result:
  "snd (launchAVDsDelayed plat sel replies) = snd (launchAVDsDelayed_from plat sel replies 0)"
  by (simp add: launchAVDsDelayed_def split: prod.splits)

lemma sequential_trace:
  "fst (launchAVDsSequential ui plat sel replies)
     = Log MStartSequential # fst (launchAVDsSequential_from ui plat replies 0 sel)"
  by (simp add: launchAVDsSequential_def split: prod.splits)

lemma sequential_result:
  "snd (launchAVDsSequential ui plat sel replies)
     = snd (launchAVDsSequential_from ui plat replies 0 sel)"
  by (simp add: launchAVDsSequential_def split: prod.splits)

lemma delayed_execs:
  "spawns_issued plat replies 0 sel \<Longrightarrow>
   execs (fst (launchAVDsDelayed plat sel replies)) = map (getEmulatorCommand plat) sel"
  by (simp add: delayed_trace delayed_from_execs)

lemma delayed_execs_prefix:
  "prefix (execs (fst (launchAVDsDelayed plat sel replies))) (map (getEmulatorCommand plat) sel)"
  using delayed_from_execs_prefix[of plat sel replies 0] by (simp add: delayed_trace)

lemma sequential_execs:
  "spawns_issued plat replies 0 sel \<Longrightarrow>
   execs (fst (launchAVDsSequential ui plat sel replies)) = map (getEmulatorCommand plat) sel"
  by (simp add: sequential_trace sequential_from_execs)

lemma sequential_execs_prefix:
  "prefix (execs (fst (launchAVDsSequential ui plat sel replies)))
          (map (getEmulatorCommand plat) sel)"
  using sequential_from_execs_prefix[of ui plat replies 0 sel] by (simp add: sequential_trace)

lemma spawns_issued_by_mode:
  "spawns_issued plat replies 0 sel \<Longrightarrow>
   snd (launch_by_mode mode ui plat sel replies) = Fulfilled ()
   \<and> execs (fst (launch_by_mode mode ui plat sel replies)) = map (getEmulatorCommand plat) sel"
  by (cases mode)
     (simp_all add: launch_by_mode_def parallel_fulfilled parallel_execs delayed_result
        delayed_from_fulfilled delayed_execs sequential_result sequential_from_fulfilled
        sequential_execs)

lemma delayed_contract_when_spawns_issued:
  assumes "spawns_issued plat replies 0 sel" and "2 \<le> length sel"
  shows "execs (fst (launchAVDsDelayed plat sel replies)) = map (getEmulatorCommand plat) sel
   \<and> sleeps (fst (launchAVDsDelayed plat sel replies)) = replicate (length sel - 1) 3000
   \<and> follows (delayed_step plat) Idle (fst (launchAVDsDelayed plat sel replies)) = Some Done"
proof -
  from assms(2) have "0 < length sel" by linarith
  with assms(1)
  have "follows (delayed_step plat) Idle (fst (launchAVDsDelayed_from plat sel replies 0))
               = Some Done"
    by (intro delayed_from_follows) simp_all
  then have "follows (delayed_step plat) Idle (fst (launchAVDsDelayed plat sel replies))
               = Some Done"
    by (simp add: delayed_trace)
  moreover have "sleeps (fst (launchAVDsDelayed plat sel replies))
                   = replicate (length sel - 1) 3000"
    using assms(1) by (simp add: delayed_trace delayed_from_sleeps)
  ultimately show ?thesis
    using assms(1) by (simp add: delayed_execs)
qed


subsection \<open>Evaluating the sample runs\<close>

lemma nul_in_command: "(NUL \<in> set (getEmulatorCommand plat avd)) = (NUL \<in> set avd)"
  by (cases plat) (simp_all add: getEmulatorCommand_def js_def NUL_def DQ_def SQ_def)

lemma exec_throws_nul:
  "NUL \<in> set avd \<Longrightarrow>
   exec_throws (getEmulatorCommand plat avd) r
     = Some (null_bytes_message (getEmulatorCommand plat avd))"
  by (simp add: exec_throws_def nul_in_command)

lemma exec_throws_clean:
  "NUL \<notin> set avd \<Longrightarrow> exec_throws (getEmulatorCommand plat avd) r = thrown r"
  by (simp add: exec_throws_def nul_in_command)

lemma spawns_issued_clean:
  "list_all (\<lambda>avd. NUL \<notin> set avd) sel \<Longrightarrow> (\<And>i. thrown (replies i) = None) \<Longrightarrow>
   spawns_issued plat replies n sel"
  by (induction sel arbitrary: n) (simp_all add: spawns_issued_Nil spawns_issued_Cons exec_throws_clean)

lemma nul_name_has_nul: "NUL \<in> set nul_name"
  by (simp add: nul_name_def)

lemma pixel_5_clean: "NUL \<notin> set (js ''Pixel_5'')"
  by (simp add: js_def NUL_def)

lemma pixel_7_clean: "NUL \<notin> set (js ''Pixel_7'')"
  by (simp add: js_def NUL_def)

lemma nexus_4_clean: "NUL \<notin> set (js ''Nexus_4'')"
  by (simp add: js_def NUL_def)

lemma launch_nul_name:
  "launchAVD plat nul_name r
     = ([Log (MLaunching nul_name)],
        Rejected (null_bytes_message (getEmulatorCommand plat nul_name)))"
  by (rule launchAVD_thrown) (rule exec_throws_nul[OF nul_name_has_nul])

lemma sequential_nul_first:
  "launchAVDsSequential ui plat nul_first replies
     = ([Log MStartSequential,
         if ui then InquirerPrompt (QPressEnter nul_name) else RlQuestion (QPressEnter nul_name),
         Log (MLaunching nul_name)],
        Rejected (null_bytes_message (getEmulatorCommand plat nul_name)))"
  by (simp add: launchAVDsSequential_def nul_first_def launch_nul_name)

lemma delayed_nul_first:
  "launchAVDsDelayed plat nul_first replies
     = ([Log MStartDelayed, Log (MLaunching nul_name)],
        Rejected (null_bytes_message (getEmulatorCommand plat nul_name)))"
proof -
  have "launchAVDsDelayed_from plat nul_first replies 0
          = ([Log (MLaunching nul_name)],
             Rejected (null_bytes_message (getEmulatorCommand plat nul_name)))"
    by (subst launchAVDsDelayed_from.simps) (simp add: nul_first_def launch_nul_name)
  then show ?thesis by (simp add: launchAVDsDelayed_def)
qed

lemma parallel_nul_first:
  "thrown (replies 1) = None \<Longrightarrow>
   launchAVDsParallel plat nul_first replies
     = ([Log MStartParallel, Log (MLaunching nul_name), Log (MLaunching (js ''Pixel_7'')),
         Exec (getEmulatorCommand plat (js ''Pixel_7''))],
        Rejected (null_bytes_message (getEmulatorCommand plat nul_name)))"
  by (simp add: launchAVDsParallel_def Let_def nul_first_def launch_nul_name
      launchAVD_executor_def exec_throws_nul[OF nul_name_has_nul]
      exec_throws_clean[OF pixel_7_clean])

lemma spawn_fails_fields:
  "thrown (spawn_fails i) = None"
  "cb_error (spawn_fails i) = Some (js ''spawn /bin/sh EAGAIN'')"
  "child_error (spawn_fails i) = Some (js ''spawn /bin/sh EAGAIN'')"
  by (simp_all add: spawn_fails_def)

lemma exec_spawn_fails:
  "exec_throws (getEmulatorCommand plat (js ''Pixel_5'')) (spawn_fails i) = None"
  by (simp add: exec_throws_clean[OF pixel_5_clean] spawn_fails_fields)

lemma callbacks_spawn_fails:
  "launchAVD_callbacks (js ''Pixel_5'') (spawn_fails i)
     = [LogError (MFailed (js ''Pixel_5'') (js ''spawn /bin/sh EAGAIN'')),
        Settled (js ''Pixel_5''),
        LogError (MFailed (js ''Pixel_5'') (js ''spawn /bin/sh EAGAIN''))]"
  by (simp add: launchAVD_callbacks_def spawn_fails_fields)

lemma launch_spawn_fails:
  "launchAVD plat (js ''Pixel_5'') (spawn_fails i)
     = ([Log (MLaunching (js ''Pixel_5'')), Exec (getEmulatorCommand plat (js ''Pixel_5'')),
         LogError (MFailed (js ''Pixel_5'') (js ''spawn /bin/sh EAGAIN'')),
         Settled (js ''Pixel_5''),
         LogError (MFailed (js ''Pixel_5'') (js ''spawn /bin/sh EAGAIN''))],
        Fulfilled ())"
  by (simp add: launchAVD_issued[OF exec_spawn_fails] callbacks_spawn_fails)

lemma reports_simps:
  "reports [] = []"
  "reports (Log (MLaunched avd) # t) = (avd, Success) # reports t"
  "reports (LogError (MFailed avd msg) # t) = (avd, Failure msg) # reports t"
  "reports (Log (MLaunching avd) # t) = reports t"
  "reports (Log MStartParallel # t) = reports t"
  "reports (Log MStartDelayed # t) = reports t"
  "reports (Log MStartSequential # t) = reports t"
  "reports (Log MBlank # t) = reports t"
  "reports (Exec c # t) = reports t"
  "reports (Settled avd # t) = reports t"
  "reports (RlQuestion q # t) = reports t"
  "reports (InquirerPrompt q # t) = reports t"
  by (simp_all add: reports_def report_of_def map_filter_simps)

lemma parallel_spawn_fails:
  "launchAVDsParallel plat [js ''Pixel_5''] spawn_fails
     = ([Log MStartParallel, Log (MLaunching (js ''Pixel_5'')),
         Exec (getEmulatorCommand plat (js ''Pixel_5'')),
         LogError (MFailed (js ''Pixel_5'') (js ''spawn /bin/sh EAGAIN'')),
         Settled (js ''Pixel_5''),
         LogError (MFailed (js ''Pixel_5'') (js ''spawn /bin/sh EAGAIN''))],
        Fulfilled ())"
  by (simp add: launchAVDsParallel_def Let_def launch_spawn_fails launchAVD_executor_def
      exec_spawn_fails callbacks_spawn_fails)

lemma delayed_spawn_fails:
  "launchAVDsDelayed plat [js ''Pixel_5''] spawn_fails
     = ([Log MStartDelayed, Log (MLaunching (js ''Pixel_5'')),
         Exec (getEmulatorCommand plat (js ''Pixel_5'')),
         LogError (MFailed (js ''Pixel_5'') (js ''spawn /bin/sh EAGAIN'')),
         Settled (js ''Pixel_5''),
         LogError (MFailed (js ''Pixel_5'') (js ''spawn /bin/sh EAGAIN''))],
        Fulfilled ())"
proof -
  have e: "launchAVDsDelayed_from plat [js ''Pixel_5''] spawn_fails (Suc 0) = ([], Fulfilled ())"
    by (rule delayed_from_end) simp
  have "launchAVDsDelayed_from plat [js ''Pixel_5''] spawn_fails 0
          = (fst (launchAVD plat (js ''Pixel_5'') (spawn_fails 0)), Fulfilled ())"
    by (subst launchAVDsDelayed_from.simps) (simp add: launch_spawn_fails e)
  then show ?thesis by (simp add: launchAVDsDelayed_def launch_spawn_fails)
qed

lemma sequential_spawn_fails:
  "launchAVDsSequential False plat [js ''Pixel_5''] spawn_fails
     = ([Log MStartSequential, RlQuestion (QPressEnter (js ''Pixel_5'')),
         Log (MLaunching (js ''Pixel_5'')),
         Exec (getEmulatorCommand plat (js ''Pixel_5'')),
         LogError (MFailed (js ''Pixel_5'') (js ''spawn /bin/sh EAGAIN'')),
         Settled (js ''Pixel_5''),
         LogError (MFailed (js ''Pixel_5'') (js ''spawn /bin/sh EAGAIN'')), Log MBlank],
        Fulfilled ())"
  by (simp add: launchAVDsSequential_def launch_spawn_fails)

subsection \<open>Outcomes per device\<close>

text \<open>
  Claim C1 does not hold of the code, in two ways. When no child process can be spawned,
  Node passes the error to the callback of \<^verbatim>\<open>exec\<close> and emits it on the child, and both
  handlers of \<^verbatim>\<open>launchAVD\<close> print: in each strategy the one spawn of the one selected
  device gives two failure reports. And when \<^verbatim>\<open>exec\<close> throws, as it does for a
  command with a NUL, the promise of \<^verbatim>\<open>launchAVD\<close> is rejected and Sequential stops
  there: for the selection of two devices that starts with such a name, nothing is spawned
  and nothing is reported.
\<close>

theorem reports_not_one_per_device:
  "execs (fst (launch_by_mode Parallel False Linux [js ''Pixel_5''] spawn_fails))
     = [getEmulatorCommand Linux (js ''Pixel_5'')]
   \<and> reports (fst (launch_by_mode Parallel False Linux [js ''Pixel_5''] spawn_fails))
     = [(js ''Pixel_5'', Failure (js ''spawn /bin/sh EAGAIN'')),
        (js ''Pixel_5'', Failure (js ''spawn /bin/sh EAGAIN''))]
   \<and> reports (fst (launch_by_mode Delayed False Linux [js ''Pixel_5''] spawn_fails))
     = [(js ''Pixel_5'', Failure (js ''spawn /bin/sh EAGAIN'')),
        (js ''Pixel_5'', Failure (js ''spawn /bin/sh EAGAIN''))]
   \<and> reports (fst (launch_by_mode Sequential False Linux [js ''Pixel_5''] spawn_fails))
     = [(js ''Pixel_5'', Failure (js ''spawn /bin/sh EAGAIN'')),
        (js ''Pixel_5'', Failure (js ''spawn /bin/sh EAGAIN''))]
   \<and> launchAVDsSequential False Linux nul_first all_succeed
     = ([Log MStartSequential, RlQuestion (QPressEnter nul_name), Log (MLaunching nul_name)],
        Rejected (null_bytes_message (getEmulatorCommand Linux nul_name)))
   \<and> execs (fst (launchAVDsSequential False Linux nul_first all_succeed)) = []
   \<and> reports (fst (launchAVDsSequential False Linux nul_first all_succeed)) = []"
  by (simp add: launch_by_mode_def parallel_spawn_fails delayed_spawn_fails
      sequential_spawn_fails sequential_nul_first reports_simps)

subsection \<open>Failure of one spawn\<close>

text \<open>
  Claim C2 does not hold when the failure of the spawn is an error thrown by
  \<^verbatim>\<open>exec\<close>. For the selection of two devices whose first name holds a NUL, the promise
  of the scheduler is rejected in every strategy, no failure is reported for the device,
  and in Delayed and Sequential the device after it is never spawned. A failure that is
  reported to the callbacks does not abort: when every call of \<^verbatim>\<open>exec\<close> returns a
  child, the scheduler is fulfilled and every device is spawned (lemma
  \<open>spawns_issued_by_mode\<close>).
\<close>

theorem exec_throw_rejects_the_scheduler:
  "snd (launch_by_mode Parallel False Linux nul_first all_succeed)
     = Rejected (null_bytes_message (getEmulatorCommand Linux nul_name))
   \<and> snd (launch_by_mode Delayed False Linux nul_first all_succeed)
     = Rejected (null_bytes_message (getEmulatorCommand Linux nul_name))
   \<and> snd (launch_by_mode Sequential False Linux nul_first all_succeed)
     = Rejected (null_bytes_message (getEmulatorCommand Linux nul_name))
   \<and> execs (fst (launch_by_mode Delayed False Linux nul_first all_succeed)) = []
   \<and> execs (fst (launch_by_mode Sequential False Linux nul_first all_succeed)) = []
   \<and> execs (fst (launch_by_mode Parallel False Linux nul_first all_succeed))
     = [getEmulatorCommand Linux (js ''Pixel_7'')]
   \<and> reports (fst (launch_by_mode Parallel False Linux nul_first all_succeed)) = []
   \<and> reports (fst (launch_by_mode Delayed False Linux nul_first all_succeed)) = []
   \<and> reports (fst (launch_by_mode Sequential False Linux nul_first all_succeed)) = []"
proof -
  have "thrown (all_succeed 1) = None"
    by (simp add: all_succeed_def)
  then show ?thesis
    by (simp add: launch_by_mode_def parallel_nul_first delayed_nul_first
        sequential_nul_first reports_simps)
qed

subsection \<open>Delayed: one at a time with fixed delays\<close>

text \<open>
  Claim C3 does not hold when \<^verbatim>\<open>exec\<close> throws. For the selection of two devices
  whose first name holds a NUL, Delayed ends rejected after the first launch, with no
  delay and no spawn, where the claim has one delay and two spawns in order. When every
  call of \<^verbatim>\<open>exec\<close> returns a child the contract holds (lemma
  \<open>delayed_contract_when_spawns_issued\<close>).
\<close>

theorem delayed_aborts_when_exec_throws:
  "2 \<le> length nul_first
   \<and> launchAVDsDelayed Linux nul_first all_succeed
     = ([Log MStartDelayed, Log (MLaunching nul_name)],
        Rejected (null_bytes_message (getEmulatorCommand Linux nul_name)))
   \<and> sleeps (fst (launchAVDsDelayed Linux nul_first all_succeed)) = []
   \<and> execs (fst (launchAVDsDelayed Linux nul_first all_succeed)) = []"
  by (simp add: delayed_nul_first) (simp add: nul_first_def)

subsection \<open>Sequential: acknowledgment before each spawn\<close>

text \<open>
  Claim C4. In both user interfaces and whatever the replies, the trace of Sequential
  never breaks the contract of \<open>sequential_step\<close>: each spawn comes after an
  acknowledgment asked for that device, and an acknowledgment is asked only at the start
  or after the previous spawn has settled. The acknowledgments asked and the spawns issued
  are for the selected devices in order: they are a prefix of the selection, and the whole
  of it, the run ending after a settle, when every call of \<^verbatim>\<open>exec\<close> returns a child.
\<close>

theorem sequential_ack_before_spawn:
  "follows (sequential_step plat) Idle (fst (launchAVDsSequential ui plat sel replies)) \<noteq> None
   \<and> prefix (acks (fst (launchAVDsSequential ui plat sel replies))) sel
   \<and> prefix (execs (fst (launchAVDsSequential ui plat sel replies)))
             (map (getEmulatorCommand plat) sel)
   \<and> (spawns_issued plat replies 0 sel \<longrightarrow>
        follows (sequential_step plat) Idle (fst (launchAVDsSequential ui plat sel replies))
          = Some (if sel = [] then Idle else Done)
        \<and> acks (fst (launchAVDsSequential ui plat sel replies)) = sel
        \<and> execs (fst (launchAVDsSequential ui plat sel replies))
            = map (getEmulatorCommand plat) sel)"
proof -
  have safe: "follows (sequential_step plat) Idle
                (fst (launchAVDsSequential ui plat sel replies)) \<noteq> None"
    using sequential_from_safe[of Idle plat ui replies 0 sel] by (simp add: sequential_trace)
  have pa: "prefix (acks (fst (launchAVDsSequential ui plat sel replies))) sel"
    using sequential_from_acks_prefix[of ui plat replies 0 sel] by (simp add: sequential_trace)
  have full: "follows (sequential_step plat) Idle
                (fst (launchAVDsSequential ui plat sel replies))
                = Some (if sel = [] then Idle else Done)
              \<and> acks (fst (launchAVDsSequential ui plat sel replies)) = sel
              \<and> execs (fst (launchAVDsSequential ui plat sel replies))
                  = map (getEmulatorCommand plat) sel"
    if "spawns_issued plat replies 0 sel"
    using that sequential_from_follows[OF that, of Idle ui]
    by (simp add: sequential_execs) (simp add: sequential_trace sequential_from_acks)
  from safe pa full show ?thesis
    using sequential_execs_prefix[of ui plat sel replies] by blast
qed

theorem sequential_ack_before_spawn_witness:
  "spawns_issued Linux first_fails 0 two_avds
   \<and> follows (sequential_step Linux) Idle
       (fst (launchAVDsSequential False Linux two_avds first_fails)) = Some Done
   \<and> acks (fst (launchAVDsSequential False Linux two_avds first_fails)) = two_avds
   \<and> execs (fst (launchAVDsSequential False Linux two_avds first_fails))
       = map (getEmulatorCommand Linux) two_avds"
proof -
  have a: "spawns_issued Linux first_fails 0 two_avds"
    by (rule spawns_issued_clean)
       (simp_all add: two_avds_def pixel_5_clean pixel_7_clean first_fails_def)
  have b: "two_avds \<noteq> []"
    by (simp add: two_avds_def)
  from sequential_ack_before_spawn[of Linux False two_avds first_fails] a b
  show ?thesis by simp
qed

section \<open>The selection in the order of the inventory\<close>

lemma checked_from_nths:
  "map snd (filter (\<lambda>(index, avd). P index) (enumerate n avds))
     = map fst (filter (\<lambda>p. P (snd p)) (zip avds [n..<n + length avds]))"
proof (induction avds arbitrary: n)
  case Nil
  then show ?case by simp
next
  case (Cons a avds)
  have e: "n + length (a # avds) = Suc n + length avds"
    by simp
  have u: "[n..<Suc n + length avds] = n # [Suc n..<Suc n + length avds]"
    by (rule upt_conv_Cons) simp
  show ?case
    unfolding e u using Cons.IH[of "Suc n"] by simp
qed

lemma checked_avds_nths: "checked_avds avds sel = nths avds {i. checked sel i}"
  using checked_from_nths[of "checked sel" 0 avds]
  by (simp add: checked_avds_def nths_def)

text \<open>
  Claim C10. When the raw-keyboard menu is confirmed, the selection it returns is made of
  exactly the devices whose box is checked at that moment, taken in the order of the
  inventory: it is the inventory restricted to the checked positions, hence a subsequence
  of the inventory. Delayed and Sequential spawn the selection in its order, which is
  therefore the order of the inventory: the spawns are a prefix of the selection, and the
  whole of it when every call of \<^verbatim>\<open>exec\<close> returns a child.
\<close>

theorem selection_is_checked_subsequence:
  assumes "snd (snd (selectAVDsBuiltIn tty avds ins)) = Fulfilled s"
  shows "s = checked_avds avds (selected (fst (snd (selectAVDsBuiltIn tty avds ins))))
   \<and> s = nths avds {i. checked (selected (fst (snd (selectAVDsBuiltIn tty avds ins)))) i}
   \<and> subseq s avds
   \<and> prefix (execs (fst (launchAVDsDelayed plat s replies))) (map (getEmulatorCommand plat) s)
   \<and> prefix (execs (fst (launchAVDsSequential ui plat s replies)))
             (map (getEmulatorCommand plat) s)
   \<and> (spawns_issued plat replies 0 s \<longrightarrow>
        execs (fst (launchAVDsDelayed plat s replies)) = map (getEmulatorCommand plat) s
        \<and> execs (fst (launchAVDsSequential ui plat s replies))
            = map (getEmulatorCommand plat) s)"
proof -
  from assms have "selectAVDsBuiltIn tty avds ins
      = (fst (selectAVDsBuiltIn tty avds ins), fst (snd (selectAVDsBuiltIn tty avds ins)),
         Fulfilled s)"
    by (metis prod.collapse)
  then have s: "s = checked_avds avds (selected (fst (snd (selectAVDsBuiltIn tty avds ins))))"
    using selectAVDsBuiltIn_fulfilled by blast
  then have sub: "subseq s avds"
    using subseq_checked_avds by simp
  have n: "s = nths avds {i. checked (selected (fst (snd (selectAVDsBuiltIn tty avds ins)))) i}"
    using s checked_avds_nths[of avds "selected (fst (snd (selectAVDsBuiltIn tty avds ins)))"]
    by simp
  from s n sub show ?thesis
    using delayed_execs_prefix[of plat s replies] sequential_execs_prefix[of ui plat s replies]
      delayed_execs[of plat replies s] sequential_execs[of plat replies s ui]
    by blast
qed

theorem selection_is_checked_subsequence_witness:
  "snd (snd (selectAVDsBuiltIn True three_avds
               [press KUp, press KSpace, press KDown, press KSpace, press KReturn]))
     = Fulfilled [js ''Pixel_5'', js ''Nexus_4'']
   \<and> selected (fst (snd (selectAVDsBuiltIn True three_avds
               [press KUp, press KSpace, press KDown, press KSpace, press KReturn])))
     = [True, False, True]
   \<and> [js ''Pixel_5'', js ''Nexus_4''] = checked_avds three_avds [True, False, True]
   \<and> subseq [js ''Pixel_5'', js ''Nexus_4''] three_avds
   \<and> spawns_issued Linux first_fails 0 [js ''Pixel_5'', js ''Nexus_4'']
   \<and> execs (fst (launchAVDsDelayed Linux [js ''Pixel_5'', js ''Nexus_4''] first_fails))
       = map (getEmulatorCommand Linux) [js ''Pixel_5'', js ''Nexus_4'']
   \<and> execs (fst (launchAVDsSequential False Linux [js ''Pixel_5'', js ''Nexus_4''] first_fails))
       = map (getEmulatorCommand Linux) [js ''Pixel_5'', js ''Nexus_4'']"
proof -
  have a: "snd (snd (selectAVDsBuiltIn True three_avds
               [press KUp, press KSpace, press KDown, press KSpace, press KReturn]))
     = Fulfilled [js ''Pixel_5'', js ''Nexus_4'']"
    by (simp add: menu_eval three_avds_def del: select_loop.simps(2,3))
  have b: "selected (fst (snd (selectAVDsBuiltIn True three_avds
               [press KUp, press KSpace, press KDown, press KSpace, press KReturn])))
     = [True, False, True]"
    by (simp add: menu_eval three_avds_def del: select_loop.simps(2,3))
  have c: "spawns_issued Linux first_fails 0 [js ''Pixel_5'', js ''Nexus_4'']"
    by (rule spawns_issued_clean) (simp_all add: pixel_5_clean nexus_4_clean first_fails_def)
  note t = selection_is_checked_subsequence[OF a, of Linux first_fails False, unfolded b]
  from t a b c show ?thesis
    by - (elim conjE impE; (intro conjI)?; assumption)
qed


end
